theory Spec2Isabelle
  imports Complex_Main "HOL-Library.Signed_Division" "HOL-Library.Log_Nat"
begin

section \<open>ZayDroids: the simulation core of both source variants\<close>

text \<open>
  The repository holds two near-duplicate implementations of the same game:
  \<^verbatim>\<open>src/main.cpp\<close> (snake-case names, heap-allocated bullets and asteroids) and
  \<^verbatim>\<open>src/unnamed/part_000\<close> (camel-case names, value containers).  Both are embedded
  here, each function under its source name.

  Conventions of the embedding:
  \<^item> In the embedding of the game a C++ \<^verbatim>\<open>float\<close> is a \<^typ>\<open>real\<close>: arithmetic is
    exact, there is no rounding, no infinity and no NaN.  The claims about counters,
    lists and flags are settled on it; what they state does not depend on rounding.
    The claims about the arithmetic itself (the distance of C3, C5 and C8) are settled
    on a second embedding of the functions they are about, over binary32 values, in
    the section on single precision.
  \<^item> A C++ \<^verbatim>\<open>int\<close> is an \<^typ>\<open>int\<close>: signed overflow is undefined behaviour in C++
    and is not modelled.
  \<^item> A \<^verbatim>\<open>std::vector\<close> is a list; the pointers of \<^verbatim>\<open>main.cpp\<close> are owned
    exclusively by the containers, so the pointed-to objects are list elements.
\<close>

subsection \<open>Constants\<close>

definition SCREEN_WIDTH :: int where "SCREEN_WIDTH = 900"
definition SCREEN_HEIGHT :: int where "SCREEN_HEIGHT = 650"

definition SHIP_RADIUS :: real where "SHIP_RADIUS = 12"
definition SHIP_TURN_SPEED :: real where "SHIP_TURN_SPEED = 3.5"
definition SHIP_ACCEL :: real where "SHIP_ACCEL = 260"
definition SHIP_FRICTION :: real where "SHIP_FRICTION = 0.98"
definition SHIP_MAX_SPEED :: real where "SHIP_MAX_SPEED = 360"

definition BULLET_SPEED :: real where "BULLET_SPEED = 520"
definition BULLET_LIFETIME :: real where "BULLET_LIFETIME = 1.2"
definition BULLET_COOLDOWN :: real where "BULLET_COOLDOWN = 0.18"

definition ASTEROID_BASE_SPEED :: real where "ASTEROID_BASE_SPEED = 40"

definition LIVES_START :: int where "LIVES_START = 3"

subsection \<open>Data\<close>

record Vector2 =
  v_x :: real
  v_y :: real

record Player =
  p_pos :: Vector2
  p_vel :: Vector2
  p_angle :: real
  p_cooldown :: real
  p_invuln :: real
  p_alive :: bool

record Bullet =
  b_pos :: Vector2
  b_vel :: Vector2
  b_life :: real

subsection \<open>Utilities of \<^verbatim>\<open>main.cpp\<close>\<close>

definition wrap_position :: "Vector2 \<Rightarrow> Vector2" where
  "wrap_position pos =
     (let pos1 =
        (if v_x pos < 0 then pos\<lparr>v_x := v_x pos + real_of_int SCREEN_WIDTH\<rparr>
         else if v_x pos > real_of_int SCREEN_WIDTH
           then pos\<lparr>v_x := v_x pos - real_of_int SCREEN_WIDTH\<rparr>
         else pos)
      in if v_y pos1 < 0 then pos1\<lparr>v_y := v_y pos1 + real_of_int SCREEN_HEIGHT\<rparr>
         else if v_y pos1 > real_of_int SCREEN_HEIGHT
           then pos1\<lparr>v_y := v_y pos1 - real_of_int SCREEN_HEIGHT\<rparr>
         else pos1)"

definition vec_from_angle :: "real \<Rightarrow> Vector2" where
  "vec_from_angle a = \<lparr>v_x = cos a, v_y = sin a\<rparr>"

text \<open>\<^verbatim>\<open>std::hypot\<close>, on exact reals.\<close>

definition vec_len :: "Vector2 \<Rightarrow> real" where
  "vec_len v = sqrt (v_x v * v_x v + v_y v * v_y v)"

definition vec_scale :: "Vector2 \<Rightarrow> real \<Rightarrow> Vector2" where
  "vec_scale v s = \<lparr>v_x = v_x v * s, v_y = v_y v * s\<rparr>"

definition vec_add :: "Vector2 \<Rightarrow> Vector2 \<Rightarrow> Vector2" where
  "vec_add a b = \<lparr>v_x = v_x a + v_x b, v_y = v_y a + v_y b\<rparr>"

definition vec_sub :: "Vector2 \<Rightarrow> Vector2 \<Rightarrow> Vector2" where
  "vec_sub a b = \<lparr>v_x = v_x a - v_x b, v_y = v_y a - v_y b\<rparr>"

definition vec_clamp_length :: "Vector2 \<Rightarrow> real \<Rightarrow> Vector2" where
  "vec_clamp_length v max_len =
     (let len = vec_len v
      in if len > max_len \<and> len > 0
         then (let scale = max_len / len in vec_scale v scale)
         else v)"

definition circle_collision :: "Vector2 \<Rightarrow> real \<Rightarrow> Vector2 \<Rightarrow> real \<Rightarrow> bool" where
  "circle_collision p1 r1 p2 r2 =
     (let dx = v_x p1 - v_x p2; dy = v_y p1 - v_y p2
      in dx * dx + dy * dy \<le> (r1 + r2) * (r1 + r2))"

subsection \<open>Utilities of \<^verbatim>\<open>part_000\<close>\<close>

definition WrapPosition :: "Vector2 \<Rightarrow> Vector2" where
  "WrapPosition pos =
     (let pos1 =
        (if v_x pos < 0 then pos\<lparr>v_x := v_x pos + real_of_int SCREEN_WIDTH\<rparr>
         else if v_x pos > real_of_int SCREEN_WIDTH
           then pos\<lparr>v_x := v_x pos - real_of_int SCREEN_WIDTH\<rparr>
         else pos)
      in if v_y pos1 < 0 then pos1\<lparr>v_y := v_y pos1 + real_of_int SCREEN_HEIGHT\<rparr>
         else if v_y pos1 > real_of_int SCREEN_HEIGHT
           then pos1\<lparr>v_y := v_y pos1 - real_of_int SCREEN_HEIGHT\<rparr>
         else pos1)"

definition VecFromAngle :: "real \<Rightarrow> Vector2" where
  "VecFromAngle a = \<lparr>v_x = cos a, v_y = sin a\<rparr>"

definition VecLen :: "Vector2 \<Rightarrow> real" where
  "VecLen v = sqrt (v_x v * v_x v + v_y v * v_y v)"

definition VecScale :: "Vector2 \<Rightarrow> real \<Rightarrow> Vector2" where
  "VecScale v s = \<lparr>v_x = v_x v * s, v_y = v_y v * s\<rparr>"

definition VecAdd :: "Vector2 \<Rightarrow> Vector2 \<Rightarrow> Vector2" where
  "VecAdd a b = \<lparr>v_x = v_x a + v_x b, v_y = v_y a + v_y b\<rparr>"

definition VecClampLength :: "Vector2 \<Rightarrow> real \<Rightarrow> Vector2" where
  "VecClampLength v maxLen =
     (let len = VecLen v
      in if len > maxLen \<and> len > 0
         then (let scale = maxLen / len in VecScale v scale)
         else v)"

definition CircleCollision :: "Vector2 \<Rightarrow> real \<Rightarrow> Vector2 \<Rightarrow> real \<Rightarrow> bool" where
  "CircleCollision p1 r1 p2 r2 =
     (let dx = v_x p1 - v_x p2; dy = v_y p1 - v_y p2
      in dx * dx + dy * dy \<le> (r1 + r2) * (r1 + r2))"

subsection \<open>Bullets and firing\<close>

text \<open>The constructor \<^verbatim>\<open>Bullet(pos, vel)\<close> of both variants.\<close>

definition Bullet_new :: "Vector2 \<Rightarrow> Vector2 \<Rightarrow> Bullet" where
  "Bullet_new pos vel = \<lparr>b_pos = pos, b_vel = vel, b_life = BULLET_LIFETIME\<rparr>"

text \<open>
  \<^verbatim>\<open>Player::shoot\<close> of \<^verbatim>\<open>main.cpp\<close> returns a pointer to a new bullet, or
  \<^verbatim>\<open>nullptr\<close>: an \<^typ>\<open>Bullet option\<close>, together with the player it leaves behind.
\<close>

definition shoot :: "Player \<Rightarrow> Bullet option \<times> Player" where
  "shoot p =
     (if p_cooldown p \<le> 0
      then (let dir_vec = vec_from_angle (p_angle p);
                bullet_pos = vec_add (p_pos p) (vec_scale dir_vec (SHIP_RADIUS + 6));
                bullet_vel = vec_add (p_vel p) (vec_scale dir_vec BULLET_SPEED)
            in (Some (Bullet_new bullet_pos bullet_vel), p\<lparr>p_cooldown := BULLET_COOLDOWN\<rparr>))
      else (None, p))"

text \<open>
  \<^verbatim>\<open>part_000\<close> splits firing into the test \<^verbatim>\<open>Player::CanShoot\<close> and the unguarded
  \<^verbatim>\<open>Player::Shoot\<close>; the controller joins them.
\<close>

definition CanShoot :: "Player \<Rightarrow> bool" where
  "CanShoot p = (p_cooldown p \<le> 0)"

definition Shoot :: "Player \<Rightarrow> Bullet \<times> Player" where
  "Shoot p =
     (let dir = VecFromAngle (p_angle p);
          q = VecAdd (p_pos p) (VecScale dir (SHIP_RADIUS + 6));
          v = VecAdd (p_vel p) (VecScale dir BULLET_SPEED)
      in (Bullet_new q v, p\<lparr>p_cooldown := BULLET_COOLDOWN\<rparr>))"

subsection \<open>Random numbers\<close>

text \<open>
  The generators (\<^verbatim>\<open>std::mt19937\<close> in \<^verbatim>\<open>main.cpp\<close>, \<^verbatim>\<open>rand()\<close> and raylib's
  \<^verbatim>\<open>GetRandomValue\<close> in \<^verbatim>\<open>part_000\<close>) are library code.  A generator is the
  sequence of unit draws it is going to deliver, with the number of draws consumed so
  far; the library distributions map one unit draw onto their range.  Nothing is assumed
  about the sequence.
\<close>

type_synonym rng = "(nat \<Rightarrow> real) \<times> nat"

definition next_unit :: "rng \<Rightarrow> real \<times> rng" where
  "next_unit g = (fst g (snd g), (fst g, snd g + 1))"

definition uniform_real :: "real \<Rightarrow> real \<Rightarrow> rng \<Rightarrow> real \<times> rng" where
  "uniform_real a b g = (let (u, g1) = next_unit g in (a + u * (b - a), g1))"

definition uniform_int :: "int \<Rightarrow> int \<Rightarrow> rng \<Rightarrow> int \<times> rng" where
  "uniform_int a b g =
     (let (u, g1) = next_unit g
      in (max a (min b (a + \<lfloor>u * real_of_int (b - a + 1)\<rfloor>)), g1))"

definition RandomRange :: "real \<Rightarrow> real \<Rightarrow> rng \<Rightarrow> real \<times> rng" where
  "RandomRange lo hi g = (let (u, g1) = next_unit g in (lo + u * (hi - lo), g1))"

definition GetRandomValue :: "int \<Rightarrow> int \<Rightarrow> rng \<Rightarrow> int \<times> rng" where
  "GetRandomValue a b g =
     (let (u, g1) = next_unit g
      in (max a (min b (a + \<lfloor>u * real_of_int (b - a + 1)\<rfloor>)), g1))"

subsection \<open>Asteroids\<close>

record Asteroid =
  a_pos :: Vector2
  a_size :: int
  a_radius :: real
  a_vel :: Vector2
  a_points :: "Vector2 list"

datatype error = out_of_range

text \<open>\<^verbatim>\<open>ASTEROID_RADII.at(size)\<close> throws \<^verbatim>\<open>std::out_of_range\<close> on a missing key.\<close>

definition ASTEROID_RADII :: "int \<rightharpoonup> real" where
  "ASTEROID_RADII = [3 \<mapsto> 42, 2 \<mapsto> 26, 1 \<mapsto> 14]"

definition radii_at :: "int \<Rightarrow> error + real" where
  "radii_at k = (case ASTEROID_RADII k of None \<Rightarrow> Inl out_of_range | Some r \<Rightarrow> Inr r)"

definition random_asteroid_velocity :: "int \<Rightarrow> rng \<Rightarrow> Vector2 \<times> rng" where
  "random_asteroid_velocity sz g =
     (let (angle, g1) = uniform_real 0 (2 * pi) g;
          (sp, g2) = uniform_real 0 40 g1;
          speed = ASTEROID_BASE_SPEED + sp + real_of_int (3 - sz) * 20
      in (vec_scale (vec_from_angle angle) speed, g2))"

text \<open>The body of the loop of \<^verbatim>\<open>_generate_shape\<close>, over the indices \<open>0 .. count - 1\<close>.\<close>

primrec generate_points :: "int list \<Rightarrow> int \<Rightarrow> real \<Rightarrow> rng \<Rightarrow> Vector2 list \<times> rng" where
  "generate_points [] count radius g = ([], g)"
| "generate_points (i # is) count radius g =
     (let angle = (real_of_int i / real_of_int count) * 2 * pi;
          (u, g1) = uniform_real 0.7 1.1 g;
          r = radius * u;
          (pts, g2) = generate_points is count radius g1
      in (\<lparr>v_x = cos angle * r, v_y = sin angle * r\<rparr> # pts, g2))"

definition generate_shape :: "real \<Rightarrow> rng \<Rightarrow> Vector2 list \<times> rng" where
  "generate_shape radius g =
     (let (count, g1) = uniform_int 10 14 g
      in generate_points [0 .. count - 1] count radius g1)"

text \<open>The constructor \<^verbatim>\<open>Asteroid(pos, size)\<close> of \<^verbatim>\<open>main.cpp\<close>.\<close>

definition new_Asteroid :: "Vector2 \<Rightarrow> int \<Rightarrow> rng \<Rightarrow> error + (Asteroid \<times> rng)" where
  "new_Asteroid pos sz g =
     (case radii_at sz of
        Inl e \<Rightarrow> Inl e
      | Inr radius \<Rightarrow>
          (let (vel, g1) = random_asteroid_velocity sz g;
               (points, g2) = generate_shape radius g1
           in Inr (\<lparr>a_pos = pos, a_size = sz, a_radius = radius, a_vel = vel,
                    a_points = points\<rparr>, g2)))"

text \<open>The same for \<^verbatim>\<open>part_000\<close>, whose radius is a conditional expression.\<close>

definition RandomAsteroidVelocity :: "int \<Rightarrow> rng \<Rightarrow> Vector2 \<times> rng" where
  "RandomAsteroidVelocity sz g =
     (let (angle, g1) = RandomRange 0 (pi * 2) g;
          (sp, g2) = RandomRange 0 40 g1;
          speed = ASTEROID_BASE_SPEED + sp + real_of_int ((3 - sz) * 20)
      in (VecScale (VecFromAngle angle) speed, g2))"

primrec GeneratePoints :: "int list \<Rightarrow> int \<Rightarrow> real \<Rightarrow> rng \<Rightarrow> Vector2 list \<times> rng" where
  "GeneratePoints [] count radius g = ([], g)"
| "GeneratePoints (i # is) count radius g =
     (let angle = real_of_int i / real_of_int count * pi * 2;
          (u, g1) = RandomRange 0.7 1.1 g;
          r = radius * u;
          (pts, g2) = GeneratePoints is count radius g1
      in (\<lparr>v_x = cos angle * r, v_y = sin angle * r\<rparr> # pts, g2))"

definition GenerateShape :: "real \<Rightarrow> rng \<Rightarrow> Vector2 list \<times> rng" where
  "GenerateShape radius g =
     (let (count, g1) = GetRandomValue 10 14 g
      in GeneratePoints [0 .. count - 1] count radius g1)"

definition Asteroid_ctor :: "Vector2 \<Rightarrow> int \<Rightarrow> rng \<Rightarrow> Asteroid \<times> rng" where
  "Asteroid_ctor p s g =
     (let radius = (if s = 3 then 42 else if s = 2 then 26 else 14);
          (vel, g1) = RandomAsteroidVelocity s g;
          (points, g2) = GenerateShape radius g1
      in (\<lparr>a_pos = p, a_size = s, a_radius = radius, a_vel = vel, a_points = points\<rparr>, g2))"

definition Asteroid_update :: "real \<Rightarrow> Asteroid \<Rightarrow> Asteroid" where
  "Asteroid_update dt a =
     (let a1 = a\<lparr>a_pos := vec_add (a_pos a) (vec_scale (a_vel a) dt)\<rparr>
      in a1\<lparr>a_pos := wrap_position (a_pos a1)\<rparr>)"

definition Asteroid_Update :: "real \<Rightarrow> Asteroid \<Rightarrow> Asteroid" where
  "Asteroid_Update dt a =
     (let a1 = a\<lparr>a_pos := VecAdd (a_pos a) (VecScale (a_vel a) dt)\<rparr>
      in a1\<lparr>a_pos := WrapPosition (a_pos a1)\<rparr>)"

definition Bullet_update :: "real \<Rightarrow> Bullet \<Rightarrow> Bullet" where
  "Bullet_update dt b =
     (let b1 = b\<lparr>b_pos := vec_add (b_pos b) (vec_scale (b_vel b) dt)\<rparr>;
          b2 = b1\<lparr>b_pos := wrap_position (b_pos b1)\<rparr>
      in b2\<lparr>b_life := b_life b2 - dt\<rparr>)"

definition Bullet_Update :: "real \<Rightarrow> Bullet \<Rightarrow> Bullet" where
  "Bullet_Update dt b =
     (let b1 = b\<lparr>b_pos := VecAdd (b_pos b) (VecScale (b_vel b) dt)\<rparr>;
          b2 = b1\<lparr>b_pos := WrapPosition (b_pos b1)\<rparr>
      in b2\<lparr>b_life := b_life b2 - dt\<rparr>)"

subsection \<open>The player\<close>

text \<open>
  The input snapshot: one flag per raylib predicate the two variants poll
  (\<^verbatim>\<open>IsKeyDown\<close> for the movement keys and space, \<^verbatim>\<open>IsMouseButtonPressed(0)\<close>,
  \<^verbatim>\<open>IsMouseButtonDown(MOUSE_LEFT_BUTTON)\<close>, \<^verbatim>\<open>IsGestureDetected(GESTURE_TAP)\<close>,
  \<^verbatim>\<open>IsKeyPressed(KEY_ENTER)\<close>).
\<close>

record Input =
  key_left :: bool
  key_a :: bool
  key_right :: bool
  key_d :: bool
  key_up :: bool
  key_w :: bool
  key_space :: bool
  mouse_pressed :: bool
  mouse_down :: bool
  gesture_tap :: bool
  enter_pressed :: bool

text \<open>The constructor \<^verbatim>\<open>Player()\<close> of \<^verbatim>\<open>main.cpp\<close> starts without invulnerability.\<close>

definition Player_new :: Player where
  "Player_new =
     \<lparr>p_pos = \<lparr>v_x = real_of_int SCREEN_WIDTH / 2, v_y = real_of_int SCREEN_HEIGHT / 2\<rparr>,
      p_vel = \<lparr>v_x = 0, v_y = 0\<rparr>, p_angle = - pi / 2, p_cooldown = 0, p_invuln = 0,
      p_alive = True\<rparr>"

definition Player_reset :: "Player \<Rightarrow> Player" where
  "Player_reset p =
     p\<lparr>p_pos := \<lparr>v_x = real_of_int SCREEN_WIDTH / 2, v_y = real_of_int SCREEN_HEIGHT / 2\<rparr>,
       p_vel := \<lparr>v_x = 0, v_y = 0\<rparr>, p_angle := - pi / 2, p_cooldown := 0, p_invuln := 2,
       p_alive := True\<rparr>"

definition Player_update :: "Input \<Rightarrow> real \<Rightarrow> Player \<Rightarrow> Player" where
  "Player_update inp dt p =
     (let p1 = (if key_left inp \<or> key_a inp
                then p\<lparr>p_angle := p_angle p - SHIP_TURN_SPEED * dt\<rparr> else p);
          p2 = (if key_right inp \<or> key_d inp
                then p1\<lparr>p_angle := p_angle p1 + SHIP_TURN_SPEED * dt\<rparr> else p1);
          p3 = (if key_up inp \<or> key_w inp
                then (let thrust = vec_scale (vec_from_angle (p_angle p2)) (SHIP_ACCEL * dt)
                      in p2\<lparr>p_vel := vec_add (p_vel p2) thrust\<rparr>)
                else p2);
          p4 = p3\<lparr>p_vel := vec_scale (p_vel p3) (SHIP_FRICTION powr (dt * 60))\<rparr>;
          p5 = p4\<lparr>p_vel := vec_clamp_length (p_vel p4) SHIP_MAX_SPEED\<rparr>;
          p6 = p5\<lparr>p_pos := vec_add (p_pos p5) (vec_scale (p_vel p5) dt)\<rparr>;
          p7 = p6\<lparr>p_pos := wrap_position (p_pos p6)\<rparr>;
          p8 = (if p_cooldown p7 > 0 then p7\<lparr>p_cooldown := p_cooldown p7 - dt\<rparr> else p7)
      in if p_invuln p8 > 0 then p8\<lparr>p_invuln := p_invuln p8 - dt\<rparr> else p8)"

text \<open>In \<^verbatim>\<open>part_000\<close> the constructor calls \<^verbatim>\<open>Reset\<close>.\<close>

definition Player_Reset :: "Player \<Rightarrow> Player" where
  "Player_Reset p =
     p\<lparr>p_pos := \<lparr>v_x = real_of_int SCREEN_WIDTH / 2, v_y = real_of_int SCREEN_HEIGHT / 2\<rparr>,
       p_vel := \<lparr>v_x = 0, v_y = 0\<rparr>, p_angle := - pi / 2, p_cooldown := 0, p_invuln := 2,
       p_alive := True\<rparr>"

definition Player_ctor :: Player where
  "Player_ctor =
     \<lparr>p_pos = \<lparr>v_x = real_of_int SCREEN_WIDTH / 2, v_y = real_of_int SCREEN_HEIGHT / 2\<rparr>,
      p_vel = \<lparr>v_x = 0, v_y = 0\<rparr>, p_angle = - pi / 2, p_cooldown = 0, p_invuln = 2,
      p_alive = True\<rparr>"

definition Player_Update :: "Input \<Rightarrow> real \<Rightarrow> Player \<Rightarrow> Player" where
  "Player_Update inp dt p =
     (let p1 = (if key_left inp \<or> key_a inp
                then p\<lparr>p_angle := p_angle p - SHIP_TURN_SPEED * dt\<rparr> else p);
          p2 = (if key_right inp \<or> key_d inp
                then p1\<lparr>p_angle := p_angle p1 + SHIP_TURN_SPEED * dt\<rparr> else p1);
          p3 = (if key_up inp \<or> key_w inp
                then (let thrust = VecScale (VecFromAngle (p_angle p2)) (SHIP_ACCEL * dt)
                      in p2\<lparr>p_vel := VecAdd (p_vel p2) thrust\<rparr>)
                else p2);
          p4 = p3\<lparr>p_vel := VecScale (p_vel p3) (SHIP_FRICTION powr (dt * 60))\<rparr>;
          p5 = p4\<lparr>p_vel := VecClampLength (p_vel p4) SHIP_MAX_SPEED\<rparr>;
          p6 = p5\<lparr>p_pos := VecAdd (p_pos p5) (VecScale (p_vel p5) dt)\<rparr>;
          p7 = p6\<lparr>p_pos := WrapPosition (p_pos p6)\<rparr>;
          p8 = (if p_cooldown p7 > 0 then p7\<lparr>p_cooldown := p_cooldown p7 - dt\<rparr> else p7)
      in if p_invuln p8 > 0 then p8\<lparr>p_invuln := p_invuln p8 - dt\<rparr> else p8)"

subsection \<open>The game of \<^verbatim>\<open>main.cpp\<close>\<close>

record Game =
  player :: Player
  bullets :: "Bullet list"
  asteroids :: "Asteroid list"
  score :: int
  lives :: int
  wave :: int
  game_over :: bool

text \<open>
  The rejection loop of \<^verbatim>\<open>spawn_wave\<close> (\<^verbatim>\<open>while (true)\<close>) draws positions until one is
  clear of the player.  Nothing bounds the number of rounds, so the loop is a partial
  function: \<open>None\<close> is the loop that never ends.
\<close>

partial_function (option) place_asteroid :: "Vector2 \<Rightarrow> rng \<Rightarrow> (Vector2 \<times> rng) option" where
  "place_asteroid ppos g =
     (let (px, g1) = uniform_real 0 (real_of_int SCREEN_WIDTH) g;
          (py, g2) = uniform_real 0 (real_of_int SCREEN_HEIGHT) g1;
          pos = \<lparr>v_x = px, v_y = py\<rparr>
      in if \<not> circle_collision pos 80 ppos 120 then Some (pos, g2)
         else place_asteroid ppos g2)"

text \<open>The counted loop of \<^verbatim>\<open>spawn_wave\<close>; the first argument is the number of rounds left.\<close>

fun spawn_asteroids ::
  "nat \<Rightarrow> Vector2 \<Rightarrow> Asteroid list \<Rightarrow> rng \<Rightarrow> (error + Asteroid list \<times> rng) option" where
  "spawn_asteroids 0 ppos acc g = Some (Inr (acc, g))"
| "spawn_asteroids (Suc n) ppos acc g =
     (case place_asteroid ppos g of
        None \<Rightarrow> None
      | Some (pos, g1) \<Rightarrow>
          (case new_Asteroid pos 3 g1 of
             Inl e \<Rightarrow> Some (Inl e)
           | Inr (a, g2) \<Rightarrow> spawn_asteroids n ppos (acc @ [a]) g2))"

definition spawn_wave :: "int \<Rightarrow> Game \<Rightarrow> rng \<Rightarrow> (error + Game \<times> rng) option" where
  "spawn_wave wave_num gm g =
     (let count = 3 + wave_num
      in case spawn_asteroids (nat count) (p_pos (player gm)) [] g of
           None \<Rightarrow> None
         | Some (Inl e) \<Rightarrow> Some (Inl e)
         | Some (Inr (as, g1)) \<Rightarrow> Some (Inr (gm\<lparr>asteroids := as\<rparr>, g1)))"

text \<open>The constructor \<^verbatim>\<open>Game()\<close>.\<close>

definition Game_new :: "rng \<Rightarrow> (error + Game \<times> rng) option" where
  "Game_new g =
     spawn_wave 1
       \<lparr>player = Player_new, bullets = [], asteroids = [], score = 0, lives = LIVES_START,
        wave = 1, game_over = False\<rparr> g"

definition reset :: "Game \<Rightarrow> rng \<Rightarrow> (error + Game \<times> rng) option" where
  "reset gm g =
     (let gm1 = gm\<lparr>score := 0, lives := LIVES_START, wave := 1, game_over := False,
                   player := Player_reset (player gm), bullets := []\<rparr>
      in spawn_wave (wave gm1) gm1 g)"

text \<open>
  The inner loop of the bullet pass: the first bullet that overlaps the asteroid gets
  \<^verbatim>\<open>life = 0\<close> and ends the loop (\<^verbatim>\<open>break\<close>); \<open>None\<close> when no bullet overlaps.
\<close>

fun hit_first :: "Asteroid \<Rightarrow> Bullet list \<Rightarrow> Bullet list option" where
  "hit_first a [] = None"
| "hit_first a (b # bs) =
     (if circle_collision (b_pos b) 2 (a_pos a) (a_radius a)
      then Some (b\<lparr>b_life := 0\<rparr> # bs)
      else map_option ((#) b) (hit_first a bs))"

text \<open>One round of the loop that creates the two children.\<close>

definition new_child :: "Asteroid \<Rightarrow> rng \<Rightarrow> error + Asteroid \<times> rng" where
  "new_child a g =
     (case new_Asteroid (a_pos a) (a_size a - 1) g of
        Inl e \<Rightarrow> Inl e
      | Inr (child, g1) \<Rightarrow>
          (let (v, g2) = random_asteroid_velocity (a_size a - 1) g1
           in Inr (child\<lparr>a_vel := v\<rparr>, g2)))"

text \<open>
  The outer loop of the bullet pass.  Its state: the bullets, the score,
  \<^verbatim>\<open>new_asteroids\<close>, \<^verbatim>\<open>remaining_asteroids\<close> and the generator.
\<close>

fun bullets_vs_asteroids ::
  "Asteroid list \<Rightarrow> Bullet list \<times> int \<times> Asteroid list \<times> Asteroid list \<times> rng \<Rightarrow>
   error + Bullet list \<times> int \<times> Asteroid list \<times> Asteroid list \<times> rng" where
  "bullets_vs_asteroids [] st = Inr st"
| "bullets_vs_asteroids (a # as) (bs, sc, new_asteroids, remaining_asteroids, g) =
     (case hit_first a bs of
        None \<Rightarrow> bullets_vs_asteroids as (bs, sc, new_asteroids, remaining_asteroids @ [a], g)
      | Some bs1 \<Rightarrow>
          (let sc1 = sc + 10 * a_size a
           in if a_size a > 1
              then (case new_child a g of
                      Inl e \<Rightarrow> Inl e
                    | Inr (c1, g1) \<Rightarrow>
                        (case new_child a g1 of
                           Inl e \<Rightarrow> Inl e
                         | Inr (c2, g2) \<Rightarrow>
                             bullets_vs_asteroids as
                               (bs1, sc1, new_asteroids @ [c1, c2], remaining_asteroids, g2)))
              else bullets_vs_asteroids as
                     (bs1, sc1, new_asteroids, remaining_asteroids, g)))"

text \<open>The loop of the player pass: the first overlapping asteroid costs a life.\<close>

fun player_hits :: "Game \<Rightarrow> Asteroid list \<Rightarrow> Game" where
  "player_hits gm [] = gm"
| "player_hits gm (a # as) =
     (if circle_collision (p_pos (player gm)) SHIP_RADIUS (a_pos a) (a_radius a)
      then (let gm1 = gm\<lparr>lives := lives gm - 1\<rparr>;
                gm2 = gm1\<lparr>player := Player_reset (player gm1)\<rparr>
            in if lives gm2 \<le> 0 then gm2\<lparr>game_over := True\<rparr> else gm2)
      else player_hits gm as)"

definition player_vs_asteroids :: "Game \<Rightarrow> Game" where
  "player_vs_asteroids gm =
     (if p_invuln (player gm) \<le> 0 then player_hits gm (asteroids gm) else gm)"

definition handle_collisions :: "Game \<Rightarrow> rng \<Rightarrow> error + Game \<times> rng" where
  "handle_collisions gm g =
     (case bullets_vs_asteroids (asteroids gm) (bullets gm, score gm, [], [], g) of
        Inl e \<Rightarrow> Inl e
      | Inr (bs, sc, new_asteroids, remaining_asteroids, g1) \<Rightarrow>
          (let gm1 = gm\<lparr>bullets := bs, score := sc\<rparr>;
               gm2 = gm1\<lparr>asteroids := remaining_asteroids @ new_asteroids\<rparr>;
               gm3 = gm2\<lparr>bullets := filter (\<lambda>b. \<not> b_life b \<le> 0) (bullets gm2)\<rparr>
           in Inr (player_vs_asteroids gm3, g1)))"

text \<open>The firing step of \<^verbatim>\<open>Game::update\<close>.\<close>

definition update_fire :: "Input \<Rightarrow> Game \<Rightarrow> Game" where
  "update_fire inp gm =
     (if key_space inp \<or> mouse_pressed inp
      then (case shoot (player gm) of
              (Some bullet, p1) \<Rightarrow> gm\<lparr>player := p1, bullets := bullets gm @ [bullet]\<rparr>
            | (None, p1) \<Rightarrow> gm\<lparr>player := p1\<rparr>)
      else gm)"

text \<open>
  \<^verbatim>\<open>Game::update\<close>.  The statements between the game-over test and the call of
  \<^verbatim>\<open>handle_collisions\<close> move the entities; they are \<open>update_entities\<close>.
\<close>

definition update_entities :: "Input \<Rightarrow> real \<Rightarrow> Game \<Rightarrow> Game" where
  "update_entities inp dt gm =
     (let gm1 = gm\<lparr>player := Player_update inp dt (player gm)\<rparr>;
          gm2 = update_fire inp gm1;
          gm3 = gm2\<lparr>bullets := map (Bullet_update dt) (bullets gm2)\<rparr>;
          gm4 = gm3\<lparr>bullets := filter (\<lambda>b. \<not> b_life b \<le> 0) (bullets gm3)\<rparr>
      in gm4\<lparr>asteroids := map (Asteroid_update dt) (asteroids gm4)\<rparr>)"

definition update :: "Input \<Rightarrow> real \<Rightarrow> Game \<Rightarrow> rng \<Rightarrow> (error + Game \<times> rng) option" where
  "update inp dt gm g =
     (if game_over gm
      then (if enter_pressed inp then reset gm g else Some (Inr (gm, g)))
      else (case handle_collisions (update_entities inp dt gm) g of
              Inl e \<Rightarrow> Some (Inl e)
            | Inr (gm6, g1) \<Rightarrow>
                if asteroids gm6 = []
                then (let gm7 = gm6\<lparr>wave := wave gm6 + 1\<rparr>;
                          gm8 = gm7\<lparr>player := (player gm7)\<lparr>p_invuln := 2\<rparr>\<rparr>
                      in spawn_wave (wave gm8) gm8 g1)
                else Some (Inr (gm6, g1))))"

subsection \<open>The game of \<^verbatim>\<open>part_000\<close>\<close>

text \<open>
  \<^verbatim>\<open>struct Game\<close> of \<^verbatim>\<open>part_000\<close> has the fields of the class of \<^verbatim>\<open>main.cpp\<close>
  (\<^verbatim>\<open>gameOver\<close> is \<^const>\<open>game_over\<close>): the record is shared.  This variant throws
  nothing; its only partial function is the \<^verbatim>\<open>do ... while\<close> of \<^verbatim>\<open>SpawnWave\<close>.
\<close>

partial_function (option) PlaceAsteroid :: "Vector2 \<Rightarrow> rng \<Rightarrow> (Vector2 \<times> rng) option" where
  "PlaceAsteroid ppos g =
     (let (px, g1) = RandomRange 0 (real_of_int SCREEN_WIDTH) g;
          (py, g2) = RandomRange 0 (real_of_int SCREEN_HEIGHT) g1;
          pos = \<lparr>v_x = px, v_y = py\<rparr>
      in if CircleCollision pos 80 ppos 120 then PlaceAsteroid ppos g2
         else Some (pos, g2))"

fun SpawnAsteroids ::
  "nat \<Rightarrow> Vector2 \<Rightarrow> Asteroid list \<Rightarrow> rng \<Rightarrow> (Asteroid list \<times> rng) option" where
  "SpawnAsteroids 0 ppos acc g = Some (acc, g)"
| "SpawnAsteroids (Suc n) ppos acc g =
     (case PlaceAsteroid ppos g of
        None \<Rightarrow> None
      | Some (pos, g1) \<Rightarrow>
          (let (a, g2) = Asteroid_ctor pos 3 g1
           in SpawnAsteroids n ppos (acc @ [a]) g2))"

definition SpawnWave :: "Game \<Rightarrow> rng \<Rightarrow> (Game \<times> rng) option" where
  "SpawnWave gm g =
     (let count = 3 + wave gm
      in case SpawnAsteroids (nat count) (p_pos (player gm)) [] g of
           None \<Rightarrow> None
         | Some (as, g1) \<Rightarrow> Some (gm\<lparr>asteroids := as\<rparr>, g1))"

definition Game_ctor :: "rng \<Rightarrow> (Game \<times> rng) option" where
  "Game_ctor g =
     SpawnWave
       \<lparr>player = Player_ctor, bullets = [], asteroids = [], score = 0, lives = LIVES_START,
        wave = 1, game_over = False\<rparr> g"

definition Reset :: "Game \<Rightarrow> rng \<Rightarrow> (Game \<times> rng) option" where
  "Reset gm g =
     SpawnWave
       (gm\<lparr>score := 0, lives := LIVES_START, wave := 1, game_over := False,
           player := Player_Reset (player gm), bullets := []\<rparr>) g"

fun HitFirst :: "Asteroid \<Rightarrow> Bullet list \<Rightarrow> Bullet list option" where
  "HitFirst a [] = None"
| "HitFirst a (b # bs) =
     (if CircleCollision (b_pos b) 2 (a_pos a) (a_radius a)
      then Some (b\<lparr>b_life := 0\<rparr> # bs)
      else map_option ((#) b) (HitFirst a bs))"

text \<open>
  The bullet pass of \<^verbatim>\<open>HandleCollisions\<close>.  Its state: the bullets, the score,
  \<^verbatim>\<open>newAsteroids\<close> (survivors and children in one list) and the generator.
\<close>

fun BulletsVsAsteroids ::
  "Asteroid list \<Rightarrow> Bullet list \<times> int \<times> Asteroid list \<times> rng \<Rightarrow>
   Bullet list \<times> int \<times> Asteroid list \<times> rng" where
  "BulletsVsAsteroids [] st = st"
| "BulletsVsAsteroids (a # as) (bs, sc, newAsteroids, g) =
     (case HitFirst a bs of
        None \<Rightarrow> BulletsVsAsteroids as (bs, sc, newAsteroids @ [a], g)
      | Some bs1 \<Rightarrow>
          (let sc1 = sc + 10 * a_size a
           in if a_size a > 1
              then (let (c1, g1) = Asteroid_ctor (a_pos a) (a_size a - 1) g;
                        (c2, g2) = Asteroid_ctor (a_pos a) (a_size a - 1) g1
                    in BulletsVsAsteroids as (bs1, sc1, newAsteroids @ [c1, c2], g2))
              else BulletsVsAsteroids as (bs1, sc1, newAsteroids, g)))"

fun PlayerHits :: "Game \<Rightarrow> Asteroid list \<Rightarrow> Game" where
  "PlayerHits gm [] = gm"
| "PlayerHits gm (a # as) =
     (if CircleCollision (p_pos (player gm)) SHIP_RADIUS (a_pos a) (a_radius a)
      then (let gm1 = gm\<lparr>lives := lives gm - 1\<rparr>;
                gm2 = gm1\<lparr>player := Player_Reset (player gm1)\<rparr>
            in if lives gm2 \<le> 0 then gm2\<lparr>game_over := True\<rparr> else gm2)
      else PlayerHits gm as)"

definition PlayerVsAsteroids :: "Game \<Rightarrow> Game" where
  "PlayerVsAsteroids gm =
     (if p_invuln (player gm) \<le> 0 then PlayerHits gm (asteroids gm) else gm)"

definition HandleCollisions :: "Game \<Rightarrow> rng \<Rightarrow> Game \<times> rng" where
  "HandleCollisions gm g =
     (let (bs, sc, newAsteroids, g1) =
            BulletsVsAsteroids (asteroids gm) (bullets gm, score gm, [], g);
          gm1 = gm\<lparr>bullets := bs, score := sc\<rparr>;
          gm2 = gm1\<lparr>asteroids := newAsteroids\<rparr>
      in (PlayerVsAsteroids gm2, g1))"

text \<open>The firing step of \<^verbatim>\<open>Game::Update\<close>: the conjunction guards \<^verbatim>\<open>Shoot\<close>.\<close>

definition Update_fire :: "Input \<Rightarrow> Game \<Rightarrow> Game" where
  "Update_fire inp gm =
     (if (key_space inp \<or> mouse_down inp \<or> gesture_tap inp) \<and> CanShoot (player gm)
      then (let (bullet, p1) = Shoot (player gm)
            in gm\<lparr>player := p1, bullets := bullets gm @ [bullet]\<rparr>)
      else gm)"

text \<open>
  \<^verbatim>\<open>Game::Update\<close>, with the entity updates as \<open>Update_entities\<close>.  Its last
  statement toggles the window's fullscreen mode on \<^verbatim>\<open>KEY_F\<close>; the window is no
  part of the game's state.
\<close>

definition Update_entities :: "Input \<Rightarrow> real \<Rightarrow> Game \<Rightarrow> Game" where
  "Update_entities inp dt gm =
     (let gm1 = gm\<lparr>player := Player_Update inp dt (player gm)\<rparr>;
          gm2 = Update_fire inp gm1;
          gm3 = gm2\<lparr>bullets := map (Bullet_Update dt) (bullets gm2)\<rparr>;
          gm4 = gm3\<lparr>bullets := filter (\<lambda>b. \<not> b_life b \<le> 0) (bullets gm3)\<rparr>
      in gm4\<lparr>asteroids := map (Asteroid_Update dt) (asteroids gm4)\<rparr>)"

definition Update :: "Input \<Rightarrow> real \<Rightarrow> Game \<Rightarrow> rng \<Rightarrow> (Game \<times> rng) option" where
  "Update inp dt gm g =
     (if game_over gm
      then (if enter_pressed inp then Reset gm g else Some (gm, g))
      else (let (gm6, g1) = HandleCollisions (Update_entities inp dt gm) g
            in if asteroids gm6 = []
               then (let gm7 = gm6\<lparr>wave := wave gm6 + 1\<rparr>;
                         gm8 = gm7\<lparr>player := (player gm7)\<lparr>p_invuln := 2\<rparr>\<rparr>
                     in SpawnWave gm8 g1)
               else Some (gm6, g1)))"

subsection \<open>Drawing\<close>

text \<open>
  The rendering collaborator is raylib.  A frame is the list of draw calls the game
  emits, in order.  \<^verbatim>\<open>MeasureText\<close> depends on the font and is a parameter.
\<close>

datatype Color =
  WHITE | SKYBLUE | YELLOW | LIGHTGRAY | RAYWHITE | RED
  | RGBA int int int int
  | Fade Color real

datatype Text = TextFormat string int | Literal string

datatype DrawCall =
  DrawLineV Vector2 Vector2 Color
  | DrawCircleV Vector2 real Color
  | DrawTriangle Vector2 Vector2 Vector2 Color
  | DrawTriangleLines Vector2 Vector2 Vector2 Color
  | DrawText Text int int int Color

text \<open>The cast \<^verbatim>\<open>static_cast<int>\<close> of a float truncates towards zero.\<close>

definition float_to_int :: "real \<Rightarrow> int" where
  "float_to_int r = (if 0 \<le> r then \<lfloor>r\<rfloor> else \<lceil>r\<rceil>)"

definition Player_draw :: "Player \<Rightarrow> DrawCall list" where
  "Player_draw p =
     (let dir_vec = vec_from_angle (p_angle p);
          right_vec = vec_from_angle (p_angle p + 2.5);
          left_vec = vec_from_angle (p_angle p - 2.5);
          p1 = vec_add (p_pos p) (vec_scale dir_vec (SHIP_RADIUS + 8));
          p2 = vec_add (p_pos p) (vec_scale right_vec SHIP_RADIUS);
          p3 = vec_add (p_pos p) (vec_scale left_vec SHIP_RADIUS);
          color = (if p_invuln p > 0 \<and> float_to_int (p_invuln p * 10) smod 2 = 0
                   then RGBA 255 255 255 80 else WHITE)
      in [DrawTriangle p1 p2 p3 color, DrawTriangleLines p1 p2 p3 SKYBLUE])"

definition Player_Draw :: "Player \<Rightarrow> DrawCall list" where
  "Player_Draw p =
     (let dir = VecFromAngle (p_angle p);
          right = VecFromAngle (p_angle p + 2.5);
          left = VecFromAngle (p_angle p - 2.5);
          p1 = VecAdd (p_pos p) (VecScale dir (SHIP_RADIUS + 8));
          p2 = VecAdd (p_pos p) (VecScale right SHIP_RADIUS);
          p3 = VecAdd (p_pos p) (VecScale left SHIP_RADIUS);
          c = (if p_invuln p > 0 \<and> float_to_int (p_invuln p * 10) smod 2 = 0
               then Fade WHITE 0.3 else WHITE)
      in [DrawTriangle p1 p2 p3 c, DrawTriangleLines p1 p2 p3 SKYBLUE])"

definition Bullet_draw :: "Bullet \<Rightarrow> DrawCall" where
  "Bullet_draw b = DrawCircleV (b_pos b) 2 YELLOW"

definition Bullet_Draw :: "Bullet \<Rightarrow> DrawCall" where
  "Bullet_Draw b = DrawCircleV (b_pos b) 2 YELLOW"

definition Asteroid_draw :: "Asteroid \<Rightarrow> DrawCall list" where
  "Asteroid_draw a =
     (let count = length (a_points a)
      in map (\<lambda>i. DrawLineV (vec_add (a_pos a) (a_points a ! i))
                    (vec_add (a_pos a) (a_points a ! ((i + 1) mod count))) LIGHTGRAY)
           [0 ..< count])"

definition Asteroid_Draw :: "Asteroid \<Rightarrow> DrawCall list" where
  "Asteroid_Draw a =
     map (\<lambda>i. DrawLineV (VecAdd (a_pos a) (a_points a ! i))
                (VecAdd (a_pos a) (a_points a ! ((i + 1) mod length (a_points a)))) LIGHTGRAY)
       [0 ..< length (a_points a)]"

definition draw :: "(string \<Rightarrow> int \<Rightarrow> int) \<Rightarrow> Game \<Rightarrow> DrawCall list" where
  "draw MeasureText gm =
     concat (map Asteroid_draw (asteroids gm))
     @ map Bullet_draw (bullets gm)
     @ (if \<not> game_over gm \<or> p_invuln (player gm) > 0 then Player_draw (player gm) else [])
     @ [DrawText (TextFormat ''Score: %d'' (score gm)) 20 20 20 RAYWHITE,
        DrawText (TextFormat ''Lives: %d'' (lives gm)) 20 45 20 RAYWHITE,
        DrawText (TextFormat ''Wave: %d'' (wave gm)) 20 70 20 RAYWHITE]
     @ (if game_over gm
        then (let w = MeasureText ''GAME OVER'' 48;
                  sw = MeasureText ''Press ENTER to restart'' 20
              in [DrawText (Literal ''GAME OVER'') ((SCREEN_WIDTH - w) sdiv 2)
                    (SCREEN_HEIGHT sdiv 2 - 40) 48 RED,
                  DrawText (Literal ''Press ENTER to restart'') ((SCREEN_WIDTH - sw) sdiv 2)
                    (SCREEN_HEIGHT sdiv 2 + 20) 20 RAYWHITE])
        else [])"

definition Draw :: "(string \<Rightarrow> int \<Rightarrow> int) \<Rightarrow> Game \<Rightarrow> DrawCall list" where
  "Draw MeasureText gm =
     concat (map Asteroid_Draw (asteroids gm))
     @ map Bullet_Draw (bullets gm)
     @ (if \<not> game_over gm \<or> p_invuln (player gm) > 0 then Player_Draw (player gm) else [])
     @ [DrawText (TextFormat ''Score: %d'' (score gm)) 20 20 20 RAYWHITE,
        DrawText (TextFormat ''Lives: %d'' (lives gm)) 20 45 20 RAYWHITE,
        DrawText (TextFormat ''Wave: %d'' (wave gm)) 20 70 20 RAYWHITE]
     @ (if game_over gm
        then [DrawText (Literal ''GAME OVER'')
                (SCREEN_WIDTH sdiv 2 - MeasureText ''GAME OVER'' 48 sdiv 2)
                (SCREEN_HEIGHT sdiv 2 - 40) 48 RED,
              DrawText (Literal ''Press ENTER to restart'')
                (SCREEN_WIDTH sdiv 2 - MeasureText ''Press ENTER to restart'' 20 sdiv 2)
                (SCREEN_HEIGHT sdiv 2 + 20) 20 RAYWHITE]
        else [])"

subsection \<open>Notions used by the properties\<close>

text \<open>The overlap tests of the two collision passes, by variant.\<close>

definition bullet_overlaps :: "Asteroid \<Rightarrow> Bullet \<Rightarrow> bool" where
  "bullet_overlaps a b = circle_collision (b_pos b) 2 (a_pos a) (a_radius a)"

definition BulletOverlaps :: "Asteroid \<Rightarrow> Bullet \<Rightarrow> bool" where
  "BulletOverlaps a b = CircleCollision (b_pos b) 2 (a_pos a) (a_radius a)"

definition player_overlaps :: "Player \<Rightarrow> Asteroid \<Rightarrow> bool" where
  "player_overlaps p a = circle_collision (p_pos p) SHIP_RADIUS (a_pos a) (a_radius a)"

definition PlayerOverlaps :: "Player \<Rightarrow> Asteroid \<Rightarrow> bool" where
  "PlayerOverlaps p a = CircleCollision (p_pos p) SHIP_RADIUS (a_pos a) (a_radius a)"

text \<open>An asteroid is hit when some bullet of the list overlaps it.\<close>

definition is_hit :: "Bullet list \<Rightarrow> Asteroid \<Rightarrow> bool" where
  "is_hit bs a = list_ex (bullet_overlaps a) bs"

definition IsHit :: "Bullet list \<Rightarrow> Asteroid \<Rightarrow> bool" where
  "IsHit bs a = list_ex (BulletOverlaps a) bs"

text \<open>
  The bullet at index \<open>i\<close> is the one that destroys asteroid \<open>a\<close>: it overlaps \<open>a\<close> and no
  earlier bullet does.  A bullet is marked when it destroys some asteroid of the list.
\<close>

definition destroys :: "Bullet list \<Rightarrow> Asteroid \<Rightarrow> nat \<Rightarrow> bool" where
  "destroys bs a i =
     (i < length bs \<and> bullet_overlaps a (bs ! i) \<and> \<not> list_ex (bullet_overlaps a) (take i bs))"

definition Destroys :: "Bullet list \<Rightarrow> Asteroid \<Rightarrow> nat \<Rightarrow> bool" where
  "Destroys bs a i =
     (i < length bs \<and> BulletOverlaps a (bs ! i) \<and> \<not> list_ex (BulletOverlaps a) (take i bs))"

definition marked :: "Bullet list \<Rightarrow> Asteroid list \<Rightarrow> nat \<Rightarrow> bool" where
  "marked bs as i = list_ex (\<lambda>a. destroys bs a i) as"

definition Marked :: "Bullet list \<Rightarrow> Asteroid list \<Rightarrow> nat \<Rightarrow> bool" where
  "Marked bs as i = list_ex (\<lambda>a. Destroys bs a i) as"

definition mark_bullets :: "Bullet list \<Rightarrow> Asteroid list \<Rightarrow> Bullet list" where
  "mark_bullets bs as =
     map (\<lambda>i. if marked bs as i then (bs ! i)\<lparr>b_life := 0\<rparr> else bs ! i) [0 ..< length bs]"

definition MarkBullets :: "Bullet list \<Rightarrow> Asteroid list \<Rightarrow> Bullet list" where
  "MarkBullets bs as =
     map (\<lambda>i. if Marked bs as i then (bs ! i)\<lparr>b_life := 0\<rparr> else bs ! i) [0 ..< length bs]"

text \<open>Position and size tier of the children a destroyed asteroid is due.\<close>

definition children_of :: "Asteroid \<Rightarrow> (Vector2 \<times> int) list" where
  "children_of a =
     (if a_size a > 1 then [(a_pos a, a_size a - 1), (a_pos a, a_size a - 1)] else [])"

definition pos_size :: "Asteroid \<Rightarrow> Vector2 \<times> int" where
  "pos_size a = (a_pos a, a_size a)"

text \<open>The size tiers: Large is 3, Medium 2, Small 1.\<close>

definition tier_ok :: "Asteroid \<Rightarrow> bool" where
  "tier_ok a = (a_size a = 1 \<or> a_size a = 2 \<or> a_size a = 3)"

text \<open>
  The pair of draws at index \<open>i\<close> of the sequence \<open>f\<close> gives a position that the
  rejection loop accepts for a player at \<open>ppos\<close>.
\<close>

definition clear_at :: "(nat \<Rightarrow> real) \<Rightarrow> Vector2 \<Rightarrow> nat \<Rightarrow> bool" where
  "clear_at f ppos i =
     (\<not> circle_collision
          \<lparr>v_x = f i * real_of_int SCREEN_WIDTH, v_y = f (i + 1) * real_of_int SCREEN_HEIGHT\<rparr>
          80 ppos 120)"

text \<open>
  The states a run passes through, with the generator: the constructed game, and every
  state an update with a non-negative frame time returns.
\<close>

inductive reachable :: "Game \<times> rng \<Rightarrow> bool" where
  reachable_new: "Game_new g = Some (Inr s) \<Longrightarrow> reachable s"
| reachable_update:
    "reachable (gm, g) \<Longrightarrow> 0 \<le> dt \<Longrightarrow> update inp dt gm g = Some (Inr s) \<Longrightarrow> reachable s"

inductive Reachable :: "Game \<times> rng \<Rightarrow> bool" where
  Reachable_ctor: "Game_ctor g = Some s \<Longrightarrow> Reachable s"
| Reachable_Update:
    "Reachable (gm, g) \<Longrightarrow> 0 \<le> dt \<Longrightarrow> Update inp dt gm g = Some s \<Longrightarrow> Reachable s"

text \<open>What the frame shows of the player: the filled triangle of \<^verbatim>\<open>Player::draw\<close>.\<close>

fun is_player_triangle :: "DrawCall \<Rightarrow> bool" where
  "is_player_triangle (DrawTriangle p1 p2 p3 c) = True"
| "is_player_triangle (DrawLineV p1 p2 c) = False"
| "is_player_triangle (DrawCircleV p r c) = False"
| "is_player_triangle (DrawTriangleLines p1 p2 p3 c) = False"
| "is_player_triangle (DrawText t px py sz c) = False"

definition player_drawn :: "DrawCall list \<Rightarrow> bool" where
  "player_drawn calls = list_ex is_player_triangle calls"

text \<open>Sample data for closed instances of the theorems.\<close>

definition no_input :: Input where
  "no_input =
     \<lparr>key_left = False, key_a = False, key_right = False, key_d = False, key_up = False,
      key_w = False, key_space = False, mouse_pressed = False, mouse_down = False,
      gesture_tap = False, enter_pressed = False\<rparr>"

definition text_width0 :: "string \<Rightarrow> int \<Rightarrow> int" where
  "text_width0 t sz = 0"

definition rock :: "real \<Rightarrow> real \<Rightarrow> int \<Rightarrow> real \<Rightarrow> Asteroid" where
  "rock px py sz r =
     \<lparr>a_pos = \<lparr>v_x = px, v_y = py\<rparr>, a_size = sz, a_radius = r,
      a_vel = \<lparr>v_x = 0, v_y = 0\<rparr>, a_points = []\<rparr>"

definition shot :: "real \<Rightarrow> real \<Rightarrow> Bullet" where
  "shot px py = \<lparr>b_pos = \<lparr>v_x = px, v_y = py\<rparr>, b_vel = \<lparr>v_x = 0, v_y = 0\<rparr>, b_life = 1\<rparr>"

definition game_with :: "Player \<Rightarrow> Bullet list \<Rightarrow> Asteroid list \<Rightarrow> int \<Rightarrow> Game" where
  "game_with p bs as n =
     \<lparr>player = p, bullets = bs, asteroids = as, score = 0, lives = n, wave = 1,
      game_over = False\<rparr>"



text \<open>
  The frame loop of \<^verbatim>\<open>main\<close>: construct the game, then one update per frame, each with
  the input snapshot and the frame time raylib reports.  Drawing reads the state only.
\<close>

fun run_frames :: "(Input \<times> real) list \<Rightarrow> Game \<times> rng \<Rightarrow> (error + Game \<times> rng) option" where
  "run_frames [] s = Some (Inr s)"
| "run_frames ((inp, dt) # fs) (gm, g) =
     (case update inp dt gm g of
        None \<Rightarrow> None
      | Some (Inl e) \<Rightarrow> Some (Inl e)
      | Some (Inr s) \<Rightarrow> run_frames fs s)"

definition main_loop :: "rng \<Rightarrow> (Input \<times> real) list \<Rightarrow> (error + Game \<times> rng) option" where
  "main_loop g fs =
     (case Game_new g of
        None \<Rightarrow> None
      | Some (Inl e) \<Rightarrow> Some (Inl e)
      | Some (Inr s) \<Rightarrow> run_frames fs s)"

fun RunFrames :: "(Input \<times> real) list \<Rightarrow> Game \<times> rng \<Rightarrow> (Game \<times> rng) option" where
  "RunFrames [] s = Some s"
| "RunFrames ((inp, dt) # fs) (gm, g) =
     (case Update inp dt gm g of
        None \<Rightarrow> None
      | Some s \<Rightarrow> RunFrames fs s)"

definition MainLoop :: "rng \<Rightarrow> (Input \<times> real) list \<Rightarrow> (Game \<times> rng) option" where
  "MainLoop g fs = (case Game_ctor g of None \<Rightarrow> None | Some s \<Rightarrow> RunFrames fs s)"

text \<open>The lives a run ends with, when it ends in a state.\<close>

definition final_lives :: "(error + Game \<times> rng) option \<Rightarrow> int option" where
  "final_lives r = (case r of Some (Inr (gm, g)) \<Rightarrow> Some (lives gm) | _ \<Rightarrow> None)"

definition FinalLives :: "(Game \<times> rng) option \<Rightarrow> int option" where
  "FinalLives r = (case r of Some (gm, g) \<Rightarrow> Some (lives gm) | None \<Rightarrow> None)"

text \<open>
  What holds of the counters in every state a run passes through: the tiers are 1, 2 or
  3, the wave number is at least 1, the score is not negative, the lives are between 0
  and 3, and the game is over exactly when no life is left.
\<close>

definition counters_ok :: "Game \<Rightarrow> bool" where
  "counters_ok gm =
     (list_all tier_ok (asteroids gm) \<and> 1 \<le> wave gm \<and> 0 \<le> score gm
      \<and> 0 \<le> lives gm \<and> lives gm \<le> 3 \<and> (game_over gm \<longleftrightarrow> lives gm \<le> 0))"

text \<open>
  A sample generator: every draw is 0 but the second of each fifteen, which is 1/2.  It
  places every asteroid at \<open>(0, 325)\<close> with velocity \<open>(40, 0)\<close> and ten outline points.  A
  sample run: a frame of 11.25 seconds and two of 22.5 seconds without input.
\<close>

definition sample_seq :: "nat \<Rightarrow> real" where
  "sample_seq n = (if n mod 15 = 1 then 1 / 2 else 0)"

definition sample_frames :: "(Input \<times> real) list" where
  "sample_frames = [(no_input, 11.25), (no_input, 22.5), (no_input, 22.5)]"

definition restart_frame :: "Input \<times> real" where
  "restart_frame = (no_input\<lparr>enter_pressed := True\<rparr>, 0)"


text \<open>
  The states of the sample run: no bullets, every asteroid Large on the player's row
  at abscissa \<open>px\<close>, drifting right at 40 per second, and the player at rest at the
  centre of the screen.
\<close>

definition lined_up :: "real \<Rightarrow> Game \<Rightarrow> bool" where
  "lined_up px gm =
     (bullets gm = [] \<and> asteroids gm \<noteq> []
      \<and> list_all (\<lambda>a. a_pos a = \<lparr>v_x = px, v_y = 325\<rparr> \<and> a_vel a = \<lparr>v_x = 40, v_y = 0\<rparr>
                       \<and> a_size a = 3 \<and> a_radius a = 42) (asteroids gm)
      \<and> p_pos (player gm) = \<lparr>v_x = 450, v_y = 325\<rparr> \<and> p_vel (player gm) = \<lparr>v_x = 0, v_y = 0\<rparr>
      \<and> p_cooldown (player gm) \<le> 0)"

section \<open>Single precision\<close>

text \<open>
  Three claims are about the arithmetic itself: the range of a wrapped coordinate, the
  length of a clamped vector, and the distance of a spawn position from the player.  A
  \<^verbatim>\<open>float\<close> rounds every result to 24 significant bits, and these claims hold or
  fail by that rounding.  The functions they are about are therefore embedded a second
  time over binary32 values, under the source name with the suffix \<open>_f32\<close>.

  A binary32 value is a finite number, an infinity or a NaN.  The finite values are the
  multiples \<open>k * 2 ^ e\<close> with \<open>\<bar>k\<bar> < 2 ^ 24\<close> and \<open>- 149 \<le> e \<le> 104\<close>.  The two zeros of
  the format are one value here: they compare equal, and none of the functions embedded
  below divides by a zero or reads its sign.
\<close>

datatype f32 = Finite real | PInf | NInf | NaN

text \<open>
  The exponent of the last place of a real number \<open>x\<close>: for
  \<open>2 ^ k \<le> \<bar>x\<bar> < 2 ^ (k + 1)\<close> it is \<open>k - 23\<close>, and \<open>- 149\<close> below \<open>2 ^ - 125\<close>, where the
  format has no finer step.
\<close>

definition ulp_exp :: "real \<Rightarrow> int" where
  "ulp_exp x = max 0 (bitlen \<lfloor>\<bar>x\<bar> * 2 ^ 149\<rfloor> - 24) - 149"

text \<open>The nearest integer, the even one of two that are equally near.\<close>

definition round_even :: "real \<Rightarrow> int" where
  "round_even x =
     (let n = \<lfloor>x\<rfloor>; d = x - of_int n
      in if d < 1 / 2 \<or> (d = 1 / 2 \<and> even n) then n else n + 1)"

text \<open>
  Rounding to nearest, ties to even, with the exponent unbounded above; \<open>round_f32\<close> then
  gives an infinity where the rounded magnitude reaches \<open>2 ^ 128\<close>.
\<close>

definition rnd :: "real \<Rightarrow> real" where
  "rnd x =
     (let e = ulp_exp x
      in sgn x * (of_int (round_even (\<bar>x\<bar> / 2 powi e)) * 2 powi e))"

definition round_f32 :: "real \<Rightarrow> f32" where
  "round_f32 x =
     (let y = rnd x
      in if \<bar>y\<bar> < 2 ^ 128 then Finite y else if 0 < y then PInf else NInf)"

text \<open>The real numbers that are binary32 values.\<close>

definition is_f32 :: "real \<Rightarrow> bool" where
  "is_f32 x = (round_f32 x = Finite x)"

text \<open>The conversion \<^verbatim>\<open>(float) n\<close> of an \<^verbatim>\<open>int\<close>.\<close>

definition f32_of_int :: "int \<Rightarrow> f32" where
  "f32_of_int n = round_f32 (of_int n)"

subsection \<open>Operations\<close>

fun negative :: "f32 \<Rightarrow> bool" where
  "negative (Finite a) = (a < 0)"
| "negative PInf = False"
| "negative NInf = True"
| "negative NaN = False"

fun fneg :: "f32 \<Rightarrow> f32" where
  "fneg (Finite a) = Finite (- a)"
| "fneg PInf = NInf"
| "fneg NInf = PInf"
| "fneg NaN = NaN"

fun fadd :: "f32 \<Rightarrow> f32 \<Rightarrow> f32" where
  "fadd (Finite a) (Finite b) = round_f32 (a + b)"
| "fadd NaN b = NaN"
| "fadd a NaN = NaN"
| "fadd PInf NInf = NaN"
| "fadd NInf PInf = NaN"
| "fadd PInf b = PInf"
| "fadd NInf b = NInf"
| "fadd (Finite a) b = b"

definition fsub :: "f32 \<Rightarrow> f32 \<Rightarrow> f32" where
  "fsub a b = fadd a (fneg b)"

fun fmul :: "f32 \<Rightarrow> f32 \<Rightarrow> f32" where
  "fmul (Finite a) (Finite b) = round_f32 (a * b)"
| "fmul NaN b = NaN"
| "fmul a NaN = NaN"
| "fmul a b =
     (if a = Finite 0 \<or> b = Finite 0 then NaN
      else if negative a = negative b then PInf else NInf)"

text \<open>
  A finite non-zero number divided by zero gives the infinity of the dividend's sign,
  as for the positive zero.
\<close>

fun fdiv :: "f32 \<Rightarrow> f32 \<Rightarrow> f32" where
  "fdiv (Finite a) (Finite b) =
     (if b \<noteq> 0 then round_f32 (a / b)
      else if a = 0 then NaN else if 0 < a then PInf else NInf)"
| "fdiv NaN b = NaN"
| "fdiv a NaN = NaN"
| "fdiv (Finite a) b = Finite 0"
| "fdiv a (Finite b) = (if negative a = (b < 0) then PInf else NInf)"
| "fdiv a b = NaN"

text \<open>\<^verbatim>\<open>sqrtf\<close>, correctly rounded as IEEE 754 requires.\<close>

fun fsqrt :: "f32 \<Rightarrow> f32" where
  "fsqrt (Finite a) = (if a < 0 then NaN else round_f32 (sqrt a))"
| "fsqrt PInf = PInf"
| "fsqrt NInf = NaN"
| "fsqrt NaN = NaN"

text \<open>
  \<^verbatim>\<open>std::hypot\<close> is library code.  It computes the root of the sum of squares without
  intermediate overflow or underflow; it is taken here to round the exact value
  correctly.  An infinite argument gives infinity, also beside a NaN.
\<close>

fun hypot_f32 :: "f32 \<Rightarrow> f32 \<Rightarrow> f32" where
  "hypot_f32 (Finite a) (Finite b) = round_f32 (sqrt (a * a + b * b))"
| "hypot_f32 PInf b = PInf"
| "hypot_f32 NInf b = PInf"
| "hypot_f32 a PInf = PInf"
| "hypot_f32 a NInf = PInf"
| "hypot_f32 a b = NaN"

text \<open>The comparisons \<^verbatim>\<open><\<close> and \<^verbatim>\<open><=\<close>; both are false beside a NaN.\<close>

fun flt :: "f32 \<Rightarrow> f32 \<Rightarrow> bool" where
  "flt (Finite a) (Finite b) = (a < b)"
| "flt NaN b = False"
| "flt a NaN = False"
| "flt a NInf = False"
| "flt PInf b = False"
| "flt a b = True"

fun fle :: "f32 \<Rightarrow> f32 \<Rightarrow> bool" where
  "fle (Finite a) (Finite b) = (a \<le> b)"
| "fle NaN b = False"
| "fle a NaN = False"
| "fle NInf b = True"
| "fle a PInf = True"
| "fle a b = False"

subsection \<open>The utilities over binary32\<close>

record Vector2f =
  f_x :: f32
  f_y :: f32

text \<open>
  \<^verbatim>\<open>wrap_position\<close> and \<^verbatim>\<open>WrapPosition\<close>.  The integer constants are converted to
  \<^verbatim>\<open>float\<close> where they meet one.
\<close>

definition wrap_position_f32 :: "Vector2f \<Rightarrow> Vector2f" where
  "wrap_position_f32 pos =
     (let pos1 =
        (if flt (f_x pos) (f32_of_int 0)
           then pos\<lparr>f_x := fadd (f_x pos) (f32_of_int SCREEN_WIDTH)\<rparr>
         else if flt (f32_of_int SCREEN_WIDTH) (f_x pos)
           then pos\<lparr>f_x := fsub (f_x pos) (f32_of_int SCREEN_WIDTH)\<rparr>
         else pos)
      in if flt (f_y pos1) (f32_of_int 0)
           then pos1\<lparr>f_y := fadd (f_y pos1) (f32_of_int SCREEN_HEIGHT)\<rparr>
         else if flt (f32_of_int SCREEN_HEIGHT) (f_y pos1)
           then pos1\<lparr>f_y := fsub (f_y pos1) (f32_of_int SCREEN_HEIGHT)\<rparr>
         else pos1)"

definition WrapPosition_f32 :: "Vector2f \<Rightarrow> Vector2f" where
  "WrapPosition_f32 pos =
     (let pos1 =
        (if flt (f_x pos) (f32_of_int 0)
           then pos\<lparr>f_x := fadd (f_x pos) (f32_of_int SCREEN_WIDTH)\<rparr>
         else if flt (f32_of_int SCREEN_WIDTH) (f_x pos)
           then pos\<lparr>f_x := fsub (f_x pos) (f32_of_int SCREEN_WIDTH)\<rparr>
         else pos)
      in if flt (f_y pos1) (f32_of_int 0)
           then pos1\<lparr>f_y := fadd (f_y pos1) (f32_of_int SCREEN_HEIGHT)\<rparr>
         else if flt (f32_of_int SCREEN_HEIGHT) (f_y pos1)
           then pos1\<lparr>f_y := fsub (f_y pos1) (f32_of_int SCREEN_HEIGHT)\<rparr>
         else pos1)"

definition vec_len_f32 :: "Vector2f \<Rightarrow> f32" where
  "vec_len_f32 v = hypot_f32 (f_x v) (f_y v)"

definition vec_scale_f32 :: "Vector2f \<Rightarrow> f32 \<Rightarrow> Vector2f" where
  "vec_scale_f32 v s = \<lparr>f_x = fmul (f_x v) s, f_y = fmul (f_y v) s\<rparr>"

definition vec_clamp_length_f32 :: "Vector2f \<Rightarrow> f32 \<Rightarrow> Vector2f" where
  "vec_clamp_length_f32 v max_len =
     (let len = vec_len_f32 v
      in if flt max_len len \<and> flt (f32_of_int 0) len
         then (let scale = fdiv max_len len in vec_scale_f32 v scale)
         else v)"


definition VecLen_f32 :: "Vector2f \<Rightarrow> f32" where
  "VecLen_f32 v = fsqrt (fadd (fmul (f_x v) (f_x v)) (fmul (f_y v) (f_y v)))"

definition VecScale_f32 :: "Vector2f \<Rightarrow> f32 \<Rightarrow> Vector2f" where
  "VecScale_f32 v s = \<lparr>f_x = fmul (f_x v) s, f_y = fmul (f_y v) s\<rparr>"

definition VecClampLength_f32 :: "Vector2f \<Rightarrow> f32 \<Rightarrow> Vector2f" where
  "VecClampLength_f32 v maxLen =
     (let len = VecLen_f32 v
      in if flt maxLen len \<and> flt (f32_of_int 0) len
         then (let scale = fdiv maxLen len in VecScale_f32 v scale)
         else v)"


subsection \<open>The rejection loop over binary32\<close>














section \<open>Properties\<close>

subsection \<open>Vector utilities\<close>

text \<open>In exact arithmetic the utilities of \<^verbatim>\<open>part_000\<close> compute the same functions.\<close>

lemma VecLen_eq: "VecLen = vec_len"
  by (rule ext) (simp add: VecLen_def vec_len_def)

lemma VecScale_eq: "VecScale = vec_scale"
  by (intro ext) (simp add: VecScale_def vec_scale_def)

lemma VecClampLength_eq: "VecClampLength = vec_clamp_length"
  by (intro ext) (simp add: VecClampLength_def vec_clamp_length_def VecLen_eq VecScale_eq Let_def)

lemma WrapPosition_eq: "WrapPosition = wrap_position"
  by (rule ext) (simp add: WrapPosition_def wrap_position_def)

lemma CircleCollision_eq: "CircleCollision = circle_collision"
  by (intro ext) (simp add: CircleCollision_def circle_collision_def)

subsection \<open>Firing\<close>

text \<open>
  C7.  With the cooldown above 0, firing gives no bullet and leaves the player as it
  is; with the cooldown at or below 0 it gives a bullet and sets the cooldown to 0.18.
  In \<^verbatim>\<open>main.cpp\<close> this is \<^verbatim>\<open>Player::shoot\<close>.  In \<^verbatim>\<open>part_000\<close> the test is
  \<^verbatim>\<open>CanShoot\<close>, \<^verbatim>\<open>Shoot\<close> sets the cooldown, and the controller calls \<^verbatim>\<open>Shoot\<close> only
  under \<^verbatim>\<open>CanShoot\<close>.
\<close>

theorem fire_cooldown:
  "(0 < p_cooldown p \<longrightarrow> shoot p = (None, p))
   \<and> (p_cooldown p \<le> 0 \<longrightarrow> (\<exists>b. shoot p = (Some b, p\<lparr>p_cooldown := 0.18\<rparr>)))
   \<and> (CanShoot p \<longleftrightarrow> p_cooldown p \<le> 0)
   \<and> snd (Shoot p) = p\<lparr>p_cooldown := 0.18\<rparr>
   \<and> (0 < p_cooldown (player gm) \<longrightarrow> Update_fire inp gm = gm)
   \<and> (p_cooldown (player gm) \<le> 0 \<and> (key_space inp \<or> mouse_down inp \<or> gesture_tap inp)
       \<longrightarrow> (\<exists>b. Update_fire inp gm =
                gm\<lparr>player := (player gm)\<lparr>p_cooldown := 0.18\<rparr>, bullets := bullets gm @ [b]\<rparr>))"
  by (auto simp add: shoot_def CanShoot_def Shoot_def Update_fire_def Let_def
        BULLET_COOLDOWN_def)

theorem fire_cooldown_witness:
  "shoot (Player_new\<lparr>p_cooldown := 0.1\<rparr>) = (None, Player_new\<lparr>p_cooldown := 0.1\<rparr>)
   \<and> (\<exists>b. shoot Player_new = (Some b, Player_new\<lparr>p_cooldown := 0.18\<rparr>))
   \<and> Update_fire (no_input\<lparr>key_space := True\<rparr>)
        (game_with (Player_ctor\<lparr>p_cooldown := 0.1\<rparr>) [] [] 3)
      = game_with (Player_ctor\<lparr>p_cooldown := 0.1\<rparr>) [] [] 3
   \<and> (\<exists>b. Update_fire (no_input\<lparr>key_space := True\<rparr>) (game_with Player_ctor [] [] 3)
          = game_with (Player_ctor\<lparr>p_cooldown := 0.18\<rparr>) [b] [] 3)"
proof -
  have c: "p_cooldown Player_new = 0" "p_cooldown Player_ctor = 0"
    by (simp_all add: Player_new_def Player_ctor_def)
  show ?thesis
    using fire_cooldown [of "Player_new\<lparr>p_cooldown := 0.1\<rparr>"
        "game_with (Player_ctor\<lparr>p_cooldown := 0.1\<rparr>) [] [] 3" "no_input\<lparr>key_space := True\<rparr>"]
      fire_cooldown [of Player_new "game_with Player_ctor [] [] 3"
        "no_input\<lparr>key_space := True\<rparr>"]
    by (simp add: c game_with_def no_input_def)
qed

subsection \<open>Rounding\<close>

text \<open>The last place of a number is at most \<open>2 ^ - 23\<close> of it, down to \<open>2 ^ - 149\<close>.\<close>

lemma ulp_exp_ge: "- 149 \<le> ulp_exp x"
  by (simp add: ulp_exp_def)

lemma ulp_exp_minus: "ulp_exp (- x) = ulp_exp x"
  by (simp add: ulp_exp_def)

lemma ulp_exp_abs: "ulp_exp \<bar>x\<bar> = ulp_exp x"
  by (simp add: ulp_exp_def)

lemma pow2_split: "(2::real) powi (a + b) = 2 powi a * 2 powi b"
  by (simp add: power_int_add)

lemma ulp_exp_upper: "\<bar>x\<bar> < 2 powi (ulp_exp x + 24)"
proof -
  define n where "n = \<lfloor>\<bar>x\<bar> * 2 ^ 149\<rfloor>"
  have n0: "0 \<le> n"
    by (simp add: n_def)
  have lt: "\<bar>x\<bar> * 2 ^ 149 < of_int n + 1"
    unfolding n_def by linarith
  have nb: "n < 2 ^ nat (bitlen n)"
    using bitlen_bounds [of n] n0 by (cases "n = 0") simp_all
  show ?thesis
  proof (cases "bitlen n \<le> 24")
    case True
    then have e: "ulp_exp x = - 149"
      by (simp add: ulp_exp_def n_def)
    have "(2::int) ^ nat (bitlen n) \<le> 2 ^ 24"
      using True by (intro power_increasing) simp_all
    then have "n + 1 \<le> 2 ^ 24"
      using nb by simp
    then have "real_of_int (n + 1) \<le> real_of_int (2 ^ 24)"
      by (rule of_int_le_iff [THEN iffD2])
    then have "\<bar>x\<bar> * 2 ^ 149 < 2 ^ 24"
      using lt by simp
    then show ?thesis
      unfolding e by simp
  next
    case False
    define b where "b = bitlen n"
    have b: "24 < b"
      using False by (simp add: b_def)
    have e: "ulp_exp x + 24 = b - 149"
      using b by (simp add: ulp_exp_def n_def b_def)
    have "n + 1 \<le> 2 ^ nat b"
      using nb by (simp add: b_def)
    then have "real_of_int (n + 1) \<le> real_of_int (2 ^ nat b)"
      by (rule of_int_le_iff [THEN iffD2])
    then have "\<bar>x\<bar> * 2 ^ 149 < 2 ^ nat b"
      using lt by simp
    also have "(2::real) ^ nat b = 2 powi b"
      using b by (simp add: power_int_nonneg_exp)
    finally have "\<bar>x\<bar> < 2 powi b / 2 ^ 149"
      by (simp add: field_simps)
    also have "\<dots> = 2 powi (b + (- 149))"
      unfolding pow2_split by (simp add: power_int_minus_divide)
    finally show ?thesis
      unfolding e by simp
  qed
qed

lemma ulp_exp_lower:
  assumes "- 149 < ulp_exp x"
  shows "2 powi (ulp_exp x + 23) \<le> \<bar>x\<bar>"
proof -
  define n where "n = \<lfloor>\<bar>x\<bar> * 2 ^ 149\<rfloor>"
  define b where "b = bitlen n"
  have b: "24 < b"
    using assms by (simp add: ulp_exp_def n_def b_def max_def split: if_splits)
  have e: "ulp_exp x + 23 = (b - 1) + (- 149)"
    using b by (simp add: ulp_exp_def n_def b_def)
  have "0 < n"
    using b bitlen_eq_zero_iff [of n] by (cases "0 < n") (simp_all add: b_def)
  then have "2 ^ nat (b - 1) \<le> n"
    using bitlen_bounds [of n] by (simp add: b_def)
  then have "real_of_int (2 ^ nat (b - 1)) \<le> real_of_int n"
    by (rule of_int_le_iff [THEN iffD2])
  also have "\<dots> \<le> \<bar>x\<bar> * 2 ^ 149"
    by (simp add: n_def)
  finally have "2 ^ nat (b - 1) / 2 ^ 149 \<le> \<bar>x\<bar>"
    by (simp add: field_simps)
  moreover have "(2::real) ^ nat (b - 1) = 2 powi (b - 1)"
    using b by (simp add: power_int_nonneg_exp)
  ultimately have "2 powi (b - 1) / 2 ^ 149 \<le> \<bar>x\<bar>"
    by simp
  then show ?thesis
    unfolding e pow2_split by (simp add: power_int_minus_divide)
qed

lemma bitlen_mono: "a \<le> b \<Longrightarrow> bitlen a \<le> bitlen b"
  unfolding bitlen_def by (intro floorlog_mono nat_mono iffD2 [OF of_nat_le_iff]) 

lemma ulp_exp_mono:
  assumes "\<bar>x\<bar> \<le> \<bar>y\<bar>"
  shows "ulp_exp x \<le> ulp_exp y"
proof -
  have "\<lfloor>\<bar>x\<bar> * 2 ^ 149\<rfloor> \<le> \<lfloor>\<bar>y\<bar> * 2 ^ 149\<rfloor>"
    using assms by (intro floor_mono) simp
  then show ?thesis
    unfolding ulp_exp_def using bitlen_mono by fastforce
qed

lemma round_even_error: "\<bar>real_of_int (round_even x) - x\<bar> \<le> 1 / 2"
  unfolding round_even_def Let_def by (auto simp add: abs_if; linarith)

lemma round_even_ge: "real_of_int n \<le> x \<Longrightarrow> n \<le> round_even x"
  unfolding round_even_def Let_def by (simp add: le_floor_iff) linarith

lemma round_even_le: "x \<le> real_of_int n \<Longrightarrow> round_even x \<le> n"
  unfolding round_even_def Let_def by (simp, linarith)

lemma round_even_int: "round_even (real_of_int n) = n"
  by (simp add: round_even_def)

lemma rnd_minus: "rnd (- x) = - rnd x"
  by (simp add: rnd_def ulp_exp_minus Let_def)

lemma rnd_zero: "rnd 0 = 0"
  by (simp add: rnd_def)

lemma rnd_pos:
  "0 \<le> x \<Longrightarrow> rnd x = real_of_int (round_even (x / 2 powi ulp_exp x)) * 2 powi ulp_exp x"
  by (cases "x = 0") (simp_all add: rnd_def Let_def round_even_def)

lemma rnd_nonneg: "0 \<le> x \<Longrightarrow> 0 \<le> rnd x"
  using round_even_ge [of 0 "x / 2 powi ulp_exp x"] by (simp add: rnd_pos)

lemma rnd_abs: "rnd \<bar>x\<bar> = \<bar>rnd x\<bar>"
proof (cases "0 \<le> x")
  case True
  then show ?thesis
    using rnd_nonneg [of x] by simp
next
  case False
  then show ?thesis
    using rnd_nonneg [of "- x"] by (simp add: rnd_minus abs_if)
qed

lemma rnd_error_pos:
  assumes "0 \<le> x"
  shows "\<bar>rnd x - x\<bar> \<le> 2 powi ulp_exp x / 2"
proof -
  define p where "p = (2::real) powi ulp_exp x"
  define u where "u = real_of_int (round_even (x / p))"
  have p: "0 < p"
    by (simp add: p_def)
  have "\<bar>u - x / p\<bar> * p \<le> 1 / 2 * p"
    unfolding u_def using round_even_error [of "x / p"] p by (intro mult_right_mono) simp_all
  moreover have "\<bar>u - x / p\<bar> * p = \<bar>(u - x / p) * p\<bar>"
    using p by (simp add: abs_mult)
  moreover have "(u - x / p) * p = u * p - x"
    using p by (simp add: left_diff_distrib)
  ultimately have "\<bar>u * p - x\<bar> \<le> p / 2"
    by simp
  then show ?thesis
    unfolding rnd_pos [OF assms] u_def p_def .
qed

lemma rnd_error_ulp: "\<bar>rnd x - x\<bar> \<le> 2 powi ulp_exp x / 2"
proof (cases "0 \<le> x")
  case True
  then show ?thesis
    by (rule rnd_error_pos)
next
  case False
  then show ?thesis
    using rnd_error_pos [of "- x"] by (simp add: rnd_minus ulp_exp_minus abs_minus_commute)
qed

lemma ulp_bound: "2 powi ulp_exp x \<le> \<bar>x\<bar> / 2 ^ 23 + 1 / 2 ^ 149"
proof (cases "ulp_exp x = - 149")
  case True
  have "(2::real) powi (- 149) = 1 / 2 ^ 149"
    by (simp add: power_int_minus_divide)
  then show ?thesis
    unfolding True by simp
next
  case False
  then have "2 powi (ulp_exp x + 23) \<le> \<bar>x\<bar>"
    using ulp_exp_ge [of x] by (intro ulp_exp_lower) simp
  then have "2 powi ulp_exp x * 2 ^ 23 \<le> \<bar>x\<bar>"
    unfolding pow2_split by simp
  then have "2 powi ulp_exp x \<le> \<bar>x\<bar> / 2 ^ 23"
    by (simp add: field_simps)
  then show ?thesis
    by (simp add: add_increasing2)
qed

lemma rnd_error: "\<bar>rnd x - x\<bar> \<le> \<bar>x\<bar> / 2 ^ 24 + 1 / 2 ^ 150"
  using rnd_error_ulp [of x] ulp_bound [of x] by simp

lemma round_even_mono:
  assumes "x \<le> y"
  shows "round_even x \<le> round_even y"
proof -
  have "\<lfloor>x\<rfloor> \<le> \<lfloor>y\<rfloor>"
    using assms by (rule floor_mono)
  then consider "\<lfloor>x\<rfloor> = \<lfloor>y\<rfloor>" | "\<lfloor>x\<rfloor> + 1 \<le> \<lfloor>y\<rfloor>"
    by linarith
  then show ?thesis
  proof cases
    case 1
    then show ?thesis
      unfolding round_even_def Let_def using assms by auto
  next
    case 2
    have "round_even x \<le> \<lfloor>x\<rfloor> + 1"
      by (rule round_even_le) linarith
    moreover have "\<lfloor>y\<rfloor> \<le> round_even y"
      by (rule round_even_ge) linarith
    ultimately show ?thesis
      using 2 by simp
  qed
qed

text \<open>A rounded value stays in the binade of its argument, ends included.\<close>

lemma rnd_le_pow:
  assumes "0 \<le> x"
  shows "rnd x \<le> 2 powi (ulp_exp x + 24)"
proof -
  define p where "p = (2::real) powi ulp_exp x"
  have p: "0 < p"
    by (simp add: p_def)
  have "x < p * 2 ^ 24"
    using ulp_exp_upper [of x] assms unfolding pow2_split p_def by simp
  then have "x / p \<le> real_of_int (2 ^ 24)"
    using p by (simp add: field_simps)
  then have "round_even (x / p) \<le> 2 ^ 24"
    by (rule round_even_le)
  then have "real_of_int (round_even (x / p)) \<le> real_of_int (2 ^ 24)"
    by (rule of_int_le_iff [THEN iffD2])
  then have "real_of_int (round_even (x / p)) * p \<le> real_of_int (2 ^ 24) * p"
    using p by (intro mult_right_mono) simp_all
  then show ?thesis
    unfolding pow2_split rnd_pos [OF assms] by (simp add: p_def mult.commute)
qed

lemma rnd_ge_pow:
  assumes "0 \<le> x" "- 149 < ulp_exp x"
  shows "2 powi (ulp_exp x + 23) \<le> rnd x"
proof -
  define p where "p = (2::real) powi ulp_exp x"
  have p: "0 < p"
    by (simp add: p_def)
  have "p * 2 ^ 23 \<le> x"
    using ulp_exp_lower [OF assms(2)] assms(1) unfolding pow2_split p_def by simp
  then have "real_of_int (2 ^ 23) \<le> x / p"
    using p by (simp add: field_simps)
  then have "2 ^ 23 \<le> round_even (x / p)"
    by (rule round_even_ge)
  then have "real_of_int (2 ^ 23) \<le> real_of_int (round_even (x / p))"
    by (rule of_int_le_iff [THEN iffD2])
  then have "real_of_int (2 ^ 23) * p \<le> real_of_int (round_even (x / p)) * p"
    using p by (intro mult_right_mono) simp_all
  then show ?thesis
    unfolding pow2_split rnd_pos [OF assms(1)] by (simp add: p_def mult.commute)
qed

lemma rnd_mono_pos:
  assumes "0 \<le> x" "x \<le> y"
  shows "rnd x \<le> rnd y"
proof -
  have y: "0 \<le> y"
    using assms by simp
  have le: "ulp_exp x \<le> ulp_exp y"
    using assms by (intro ulp_exp_mono) simp
  show ?thesis
  proof (cases "ulp_exp x = ulp_exp y")
    case True
    define p where "p = (2::real) powi ulp_exp y"
    have p: "0 < p"
      by (simp add: p_def)
    have "x / p \<le> y / p"
      using assms(2) p by (simp add: divide_right_mono)
    then have "round_even (x / p) \<le> round_even (y / p)"
      by (rule round_even_mono)
    then have "real_of_int (round_even (x / p)) * p \<le> real_of_int (round_even (y / p)) * p"
      using p by (intro mult_right_mono) simp_all
    then show ?thesis
      unfolding rnd_pos [OF assms(1)] rnd_pos [OF y] True p_def .
  next
    case False
    then have lt: "ulp_exp x + 1 \<le> ulp_exp y"
      using le by simp
    then have "- 149 < ulp_exp y"
      using ulp_exp_ge [of x] by simp
    then have "2 powi (ulp_exp y + 23) \<le> rnd y"
      using y by (intro rnd_ge_pow)
    moreover have "rnd x \<le> 2 powi (ulp_exp x + 24)"
      using assms(1) by (rule rnd_le_pow)
    moreover have "(2::real) powi (ulp_exp x + 24) \<le> 2 powi (ulp_exp y + 23)"
      using lt by (intro power_int_increasing) simp_all
    ultimately show ?thesis
      by simp
  qed
qed

lemma rnd_mono:
  assumes "x \<le> y"
  shows "rnd x \<le> rnd y"
proof -
  consider "0 \<le> x" | "x < 0" "0 \<le> y" | "y < 0"
    by linarith
  then show ?thesis
  proof cases
    case 1
    then show ?thesis
      using assms by (rule rnd_mono_pos)
  next
    case 2
    then show ?thesis
      using rnd_nonneg [of y] rnd_nonneg [of "- x"] by (simp add: rnd_minus)
  next
    case 3
    then show ?thesis
      using rnd_mono_pos [of "- y" "- x"] assms by (simp add: rnd_minus)
  qed
qed

lemma rnd_upper: "x \<le> b \<Longrightarrow> rnd b = b \<Longrightarrow> rnd x \<le> b"
  using rnd_mono [of x b] by simp

lemma rnd_lower: "a \<le> x \<Longrightarrow> rnd a = a \<Longrightarrow> a \<le> rnd x"
  using rnd_mono [of a x] by simp

lemma rnd_bounded: "\<bar>x\<bar> \<le> b \<Longrightarrow> rnd b = b \<Longrightarrow> \<bar>rnd x\<bar> \<le> b"
  using rnd_upper [of "\<bar>x\<bar>" b] by (simp add: rnd_abs)

subsection \<open>Evaluation\<close>

text \<open>The equations that evaluate a rounding at a numeral.\<close>

lemmas f32_eval = round_f32_def rnd_def ulp_exp_def round_even_def Let_def compute_bitlen
  f32_of_int_def fsub_def is_f32_def SCREEN_WIDTH_def SCREEN_HEIGHT_def

subsection \<open>Finite results\<close>

lemma is_f32_iff: "is_f32 x \<longleftrightarrow> rnd x = x \<and> \<bar>x\<bar> < 2 ^ 128"
  by (auto simp add: is_f32_def round_f32_def Let_def)

lemma rnd_pow127: "rnd (2 ^ 127) = 2 ^ 127"
  by (simp add: f32_eval)

lemma round_f32_finite:
  assumes "\<bar>x\<bar> \<le> 2 ^ 127"
  shows "round_f32 x = Finite (rnd x)"
proof -
  have "\<bar>rnd x\<bar> \<le> 2 ^ 127"
    using assms rnd_pow127 by (rule rnd_bounded)
  then show ?thesis
    by (simp add: round_f32_def)
qed

lemma rnd_consts:
  "rnd 0 = 0" "rnd 1 = 1" "rnd 80 = 80" "rnd 120 = 120" "rnd 200 = 200" "rnd 650 = 650"
  "rnd 900 = 900" "rnd 40000 = 40000"
  by (simp_all add: f32_eval)

lemma f32_of_int_consts:
  "f32_of_int 0 = Finite 0" "f32_of_int 80 = Finite 80" "f32_of_int 120 = Finite 120"
  "f32_of_int SCREEN_WIDTH = Finite 900" "f32_of_int SCREEN_HEIGHT = Finite 650"
  by (simp_all add: f32_eval)

lemma fle_not_flt: "fle a b \<Longrightarrow> \<not> flt b a"
  by (cases a; cases b) simp_all

lemma rnd_above: "0 \<le> x \<Longrightarrow> rnd x \<le> x + x / 2 ^ 24 + 1 / 2 ^ 150"
  using rnd_error [of x] by (simp add: abs_le_iff)

lemma rnd_below: "0 \<le> x \<Longrightarrow> x - x / 2 ^ 24 - 1 / 2 ^ 150 \<le> rnd x"
  using rnd_error [of x] by (simp add: abs_le_iff)

lemma rnd_abs_above: "\<bar>rnd x\<bar> \<le> \<bar>x\<bar> + \<bar>x\<bar> / 2 ^ 24 + 1 / 2 ^ 150"
  using rnd_above [of "\<bar>x\<bar>"] by (simp add: rnd_abs)



lemma square_bound: "\<bar>x\<bar> \<le> b \<Longrightarrow> x * x \<le> b * b" for x :: real
  using abs_le_square_iff [of x b] by (simp add: power2_eq_square)


subsection \<open>Wrapping a position\<close>

text \<open>
  One coordinate of the wrap, for an extent \<open>W\<close> that is a binary32 value: the sum and the
  difference are rounded, and rounding keeps a number between two binary32 values
  between them.
\<close>

lemma wrap_coordinate:
  assumes "rnd W = W" "0 \<le> W" "W \<le> 2 ^ 125" "- W \<le> x" "x \<le> 2 * W"
  shows "\<exists>x'. (if flt (Finite x) (Finite 0) then fadd (Finite x) (Finite W)
               else if flt (Finite W) (Finite x) then fsub (Finite x) (Finite W)
               else Finite x) = Finite x'
           \<and> 0 \<le> x' \<and> x' \<le> W \<and> (0 \<le> x \<and> x \<le> W \<longrightarrow> x' = x)"
proof -
  consider "x < 0" | "W < x" | "0 \<le> x" "x \<le> W"
    by linarith
  then show ?thesis
  proof cases
    case 1
    have "\<bar>x + W\<bar> \<le> 2 ^ 127"
      using assms 1 by simp
    then have "round_f32 (x + W) = Finite (rnd (x + W))"
      by (rule round_f32_finite)
    moreover have "0 \<le> rnd (x + W)"
      using assms(4) by (intro rnd_nonneg) simp
    moreover have "rnd (x + W) \<le> W"
      using 1 assms(1) by (intro rnd_upper) simp_all
    ultimately show ?thesis
      using 1 by simp
  next
    case 2
    have "\<bar>x - W\<bar> \<le> 2 ^ 127"
      using assms 2 by simp
    then have "round_f32 (x - W) = Finite (rnd (x - W))"
      by (rule round_f32_finite)
    moreover have "0 \<le> rnd (x - W)"
      using 2 by (intro rnd_nonneg) simp
    moreover have "rnd (x - W) \<le> W"
      using assms(1,5) by (intro rnd_upper) simp_all
    ultimately show ?thesis
      using 2 assms(2) by (simp add: fsub_def)
  next
    case 3
    then show ?thesis
      by simp
  qed
qed

text \<open>
  C5, as stated, fails at both ends of the range.  The tests are strict
  (\<^verbatim>\<open>pos.x > SCREEN_WIDTH\<close>), so \<open>x = 900\<close> is returned as it is; and for a small negative
  \<open>x\<close> the sum \<open>x + 900\<close> rounds to \<open>900\<close>: for \<open>x = - 2 ^ - 30\<close> the wrapped coordinate is
  exactly \<open>900\<close>.  Neither is below 900.
\<close>

theorem wrap_position_counterexample:
  "wrap_position_f32 \<lparr>f_x = Finite 900, f_y = Finite 0\<rparr> = \<lparr>f_x = Finite 900, f_y = Finite 0\<rparr>
   \<and> WrapPosition_f32 \<lparr>f_x = Finite 900, f_y = Finite 0\<rparr> = \<lparr>f_x = Finite 900, f_y = Finite 0\<rparr>
   \<and> is_f32 (- (1 / 2 ^ 30))
   \<and> wrap_position_f32 \<lparr>f_x = Finite (- (1 / 2 ^ 30)), f_y = Finite 0\<rparr>
       = \<lparr>f_x = Finite 900, f_y = Finite 0\<rparr>
   \<and> WrapPosition_f32 \<lparr>f_x = Finite (- (1 / 2 ^ 30)), f_y = Finite 0\<rparr>
       = \<lparr>f_x = Finite 900, f_y = Finite 0\<rparr>
   \<and> \<not> (900::real) < 900"
proof -
  have "fadd (Finite (- (1 / 2 ^ 30))) (Finite 900) = Finite 900"
    "is_f32 (- (1 / 2 ^ 30))"
    by (simp_all add: f32_eval)
  then show ?thesis
    by (simp add: wrap_position_f32_def WrapPosition_f32_def f32_of_int_consts Let_def)
qed

text \<open>
  C5, amended.  With \<open>W = 900\<close> and \<open>H = 650\<close>: for every position whose coordinates lie in
  \<open>[- W, 2 W]\<close> and \<open>[- H, 2 H]\<close>, the wrapped position lies in the closed rectangle
  \<open>[0, W] \<times> [0, H]\<close>, and wrapping is the identity on that rectangle.  Both variants, in
  single precision.
\<close>

theorem wrap_position_range:
  assumes "- 900 \<le> x" "x \<le> 2 * 900" "- 650 \<le> y" "y \<le> 2 * 650"
  shows "\<exists>x' y'.
      wrap_position_f32 \<lparr>f_x = Finite x, f_y = Finite y\<rparr> = \<lparr>f_x = Finite x', f_y = Finite y'\<rparr>
      \<and> WrapPosition_f32 \<lparr>f_x = Finite x, f_y = Finite y\<rparr> = \<lparr>f_x = Finite x', f_y = Finite y'\<rparr>
      \<and> 0 \<le> x' \<and> x' \<le> 900 \<and> 0 \<le> y' \<and> y' \<le> 650
      \<and> (0 \<le> x \<and> x \<le> 900 \<longrightarrow> x' = x) \<and> (0 \<le> y \<and> y \<le> 650 \<longrightarrow> y' = y)"
proof -
  obtain x' where x:
    "(if flt (Finite x) (Finite 0) then fadd (Finite x) (Finite 900)
      else if flt (Finite 900) (Finite x) then fsub (Finite x) (Finite 900)
      else Finite x) = Finite x'"
    "0 \<le> x'" "x' \<le> 900" "0 \<le> x \<and> x \<le> 900 \<longrightarrow> x' = x"
    using wrap_coordinate [of 900 x] assms(1,2) rnd_consts by auto
  obtain y' where y:
    "(if flt (Finite y) (Finite 0) then fadd (Finite y) (Finite 650)
      else if flt (Finite 650) (Finite y) then fsub (Finite y) (Finite 650)
      else Finite y) = Finite y'"
    "0 \<le> y'" "y' \<le> 650" "0 \<le> y \<and> y \<le> 650 \<longrightarrow> y' = y"
    using wrap_coordinate [of 650 y] assms(3,4) rnd_consts by auto
  have "wrap_position_f32 \<lparr>f_x = Finite x, f_y = Finite y\<rparr> = \<lparr>f_x = Finite x', f_y = Finite y'\<rparr>"
    using x(1) y(1) unfolding wrap_position_f32_def f32_of_int_consts Let_def
    by (auto split: if_splits)
  moreover have
    "WrapPosition_f32 \<lparr>f_x = Finite x, f_y = Finite y\<rparr> = \<lparr>f_x = Finite x', f_y = Finite y'\<rparr>"
    using x(1) y(1) unfolding WrapPosition_f32_def f32_of_int_consts Let_def
    by (auto split: if_splits)
  ultimately show ?thesis
    using x(2-4) y(2-4) by blast
qed

theorem wrap_position_range_witness:
  "(\<exists>x' y'.
      wrap_position_f32 \<lparr>f_x = Finite (- (1 / 2 ^ 30)), f_y = Finite 700\<rparr>
        = \<lparr>f_x = Finite x', f_y = Finite y'\<rparr>
      \<and> WrapPosition_f32 \<lparr>f_x = Finite (- (1 / 2 ^ 30)), f_y = Finite 700\<rparr>
        = \<lparr>f_x = Finite x', f_y = Finite y'\<rparr>
      \<and> 0 \<le> x' \<and> x' \<le> 900 \<and> 0 \<le> y' \<and> y' \<le> 650)
   \<and> wrap_position_f32 \<lparr>f_x = Finite 30, f_y = Finite 650\<rparr>
        = \<lparr>f_x = Finite 30, f_y = Finite 650\<rparr>
   \<and> WrapPosition_f32 \<lparr>f_x = Finite 30, f_y = Finite 650\<rparr>
        = \<lparr>f_x = Finite 30, f_y = Finite 650\<rparr>"
  using wrap_position_range [of "- (1 / 2 ^ 30)" 700] wrap_position_range [of 30 650]
  by simp

subsection \<open>Clamping a vector\<close>

text \<open>The Euclidean length, and its two properties used below.\<close>

lemma norm2_triangle:
  "sqrt ((a + c) * (a + c) + (b + d) * (b + d)) \<le> sqrt (a * a + b * b) + sqrt (c * c + d * d)"
  using real_sqrt_sum_squares_triangle_ineq [of a c b d] by (simp add: power2_eq_square)

lemma norm2_mono:
  assumes "\<bar>a\<bar> \<le> c" "\<bar>b\<bar> \<le> d"
  shows "sqrt (a * a + b * b) \<le> sqrt (c * c + d * d)"
proof -
  have "a * a \<le> c * c" "b * b \<le> d * d"
    using assms abs_le_square_iff [of a c] abs_le_square_iff [of b d]
    by (simp_all add: power2_eq_square)
  then show ?thesis
    by simp
qed

lemma norm2_scale:
  assumes "0 \<le> s"
  shows "sqrt ((a * s) * (a * s) + (b * s) * (b * s)) = s * sqrt (a * a + b * b)"
proof -
  have "(a * s) * (a * s) + (b * s) * (b * s) = (s * s) * (a * a + b * b)"
    by (simp add: algebra_simps)
  then show ?thesis
    using assms by (simp add: real_sqrt_mult)
qed

text \<open>
  The rounding error of the two products: a vector that is \<open>\<open>(tx, ty)\<close>\<close> before
  rounding is longer after it by at most \<open>2 ^ - 24\<close> of its length, and \<open>2 ^ - 149\<close>.
\<close>

lemma rounded_length:
  "sqrt (rnd tx * rnd tx + rnd ty * rnd ty)
     \<le> sqrt (tx * tx + ty * ty) * (1 + 1 / 2 ^ 24) + 1 / 2 ^ 149"
proof -
  define u :: real where "u = 1 / 2 ^ 24"
  define h :: real where "h = 1 / 2 ^ 150"
  define T where "T = sqrt (tx * tx + ty * ty)"
  have u: "0 \<le> u" and h: "0 \<le> h"
    by (simp_all add: u_def h_def)
  have e: "\<bar>rnd tx - tx\<bar> \<le> \<bar>tx\<bar> * u + h" "\<bar>rnd ty - ty\<bar> \<le> \<bar>ty\<bar> * u + h"
    using rnd_error [of tx] rnd_error [of ty] by (simp_all add: u_def h_def)
  have "sqrt (rnd tx * rnd tx + rnd ty * rnd ty)
      \<le> T + sqrt ((rnd tx - tx) * (rnd tx - tx) + (rnd ty - ty) * (rnd ty - ty))"
    using norm2_triangle [of tx "rnd tx - tx" ty "rnd ty - ty"] by (simp add: T_def)
  also have "sqrt ((rnd tx - tx) * (rnd tx - tx) + (rnd ty - ty) * (rnd ty - ty))
      \<le> sqrt ((\<bar>tx\<bar> * u + h) * (\<bar>tx\<bar> * u + h) + (\<bar>ty\<bar> * u + h) * (\<bar>ty\<bar> * u + h))"
    using e by (rule norm2_mono)
  also have "\<dots> \<le> sqrt ((\<bar>tx\<bar> * u) * (\<bar>tx\<bar> * u) + (\<bar>ty\<bar> * u) * (\<bar>ty\<bar> * u)) + sqrt (h * h + h * h)"
    by (rule norm2_triangle)
  also have "sqrt ((\<bar>tx\<bar> * u) * (\<bar>tx\<bar> * u) + (\<bar>ty\<bar> * u) * (\<bar>ty\<bar> * u)) = u * T"
    using norm2_scale [OF u, of "\<bar>tx\<bar>" "\<bar>ty\<bar>"] by (simp add: T_def)
  also have "sqrt (h * h + h * h) \<le> sqrt ((2 * h) * (2 * h))"
    using h by (intro real_sqrt_le_mono) (simp add: algebra_simps)
  also have "sqrt ((2 * h) * (2 * h)) = 2 * h"
    using h by (simp add: real_sqrt_mult)
  finally have "sqrt (rnd tx * rnd tx + rnd ty * rnd ty) \<le> T + (u * T + 2 * h)"
    by simp
  then show ?thesis
    by (simp add: T_def u_def h_def algebra_simps)
qed

text \<open>
  The scaled vector.  \<open>len\<close> is the computed length, above the bound \<open>m\<close>; \<open>L\<close> is the
  exact length, which the computed one meets up to \<open>3 * 2 ^ - 24\<close> of itself and
  \<open>2 ^ - 73\<close>.
\<close>

lemma scaled_length:
  fixes x y m len :: real
  assumes m: "0 \<le> m" "m < len" and len: "len \<le> 2 ^ 62"
    and L: "sqrt (x * x + y * y) \<le> (1 + 3 / 2 ^ 24) * len + 1 / 2 ^ 73"
  shows "sqrt (rnd (x * rnd (m / len)) * rnd (x * rnd (m / len))
               + rnd (y * rnd (m / len)) * rnd (y * rnd (m / len)))
           \<le> m * (1 + 1 / 2 ^ 21) + 1 / 2 ^ 70"
proof -
  define u :: real where "u = 1 / 2 ^ 24"
  define h :: real where "h = 1 / 2 ^ 150"
  define k :: real where "k = 1 + 3 / 2 ^ 24"
  define e :: real where "e = 1 / 2 ^ 73"
  define t where "t = m / len"
  define s where "s = rnd t"
  define N where "N = sqrt (x * x + y * y)"
  have t: "0 \<le> t" "t \<le> 1" "t * len = m"
    using m by (simp_all add: t_def)
  have s0: "0 \<le> s"
    unfolding s_def using t(1) by (rule rnd_nonneg)
  have s1: "s \<le> t * (1 + u) + h"
    using rnd_above [OF t(1)] by (simp add: s_def u_def h_def algebra_simps)
  have N0: "0 \<le> N"
    by (simp add: N_def)
  have N1: "N \<le> k * len + e"
    using L by (simp add: N_def k_def e_def)
  have c: "0 \<le> u" "0 \<le> h" "0 \<le> k" "0 \<le> e" "0 \<le> len"
    using m by (simp_all add: u_def h_def k_def e_def)
  have "s * N \<le> (t * (1 + u) + h) * (k * len + e)"
    using s1 N1 N0 t(1) c by (intro mult_mono) simp_all
  also have "\<dots> = (t * len) * ((1 + u) * k) + t * ((1 + u) * e) + len * (h * k) + h * e"
    by (simp add: algebra_simps)
  also have "\<dots> \<le> m * ((1 + u) * k) + 1 * ((1 + u) * e) + 2 ^ 62 * (h * k) + h * e"
    unfolding t(3) using t(2) len c by (intro add_mono mult_right_mono order_refl) simp_all
  finally have sN: "s * N \<le> m * ((1 + u) * k) + (1 + u) * e + 2 ^ 62 * (h * k) + h * e"
    by simp
  have "sqrt (rnd (x * s) * rnd (x * s) + rnd (y * s) * rnd (y * s))
      \<le> sqrt ((x * s) * (x * s) + (y * s) * (y * s)) * (1 + 1 / 2 ^ 24) + 1 / 2 ^ 149"
    by (rule rounded_length)
  also have "sqrt ((x * s) * (x * s) + (y * s) * (y * s)) = s * N"
    unfolding N_def using s0 by (rule norm2_scale)
  also have "s * N * (1 + 1 / 2 ^ 24) + 1 / 2 ^ 149 = s * N * (1 + u) + 2 * h"
    by (simp add: u_def h_def)
  also have "s * N * (1 + u)
      \<le> (m * ((1 + u) * k) + (1 + u) * e + 2 ^ 62 * (h * k) + h * e) * (1 + u)"
    using sN c(1) by (intro mult_right_mono) simp_all
  finally have "sqrt (rnd (x * s) * rnd (x * s) + rnd (y * s) * rnd (y * s))
      \<le> (m * ((1 + u) * k) + (1 + u) * e + 2 ^ 62 * (h * k) + h * e) * (1 + u) + 2 * h"
    by simp
  also have "\<dots> \<le> m * (1 + 1 / 2 ^ 21) + 1 / 2 ^ 70"
  proof -
    have "(1 + u) * k * (1 + u) \<le> 1 + 1 / 2 ^ 21"
      by (simp add: u_def k_def)
    then have "m * ((1 + u) * k * (1 + u)) \<le> m * (1 + 1 / 2 ^ 21)"
      using m(1) by (intro mult_left_mono)
    moreover have "((1 + u) * e + 2 ^ 62 * (h * k) + h * e) * (1 + u) + 2 * h \<le> 1 / 2 ^ 70"
      by (simp add: u_def k_def h_def e_def)
    ultimately show ?thesis
      by (simp add: algebra_simps)
  qed
  finally show ?thesis
    by (simp add: s_def t_def)
qed

text \<open>How far the computed length is from the exact one, in either variant.\<close>

lemma hypot_accuracy:
  assumes "0 \<le> N"
  shows "N \<le> (1 + 3 / 2 ^ 24) * rnd N + 1 / 2 ^ 73"
  using rnd_below [OF assms] rnd_nonneg [OF assms] by simp

lemma VecLen_accuracy:
  "sqrt (x * x + y * y)
     \<le> (1 + 3 / 2 ^ 24) * rnd (sqrt (rnd (rnd (x * x) + rnd (y * y)))) + 1 / 2 ^ 73"
proof -
  define h :: real where "h = 1 / 2 ^ 150"
  define c :: real where "c = 1 - 1 / 2 ^ 24"
  define k :: real where "k = 1 + 3 / 2 ^ 24"
  define e :: real where "e = 1 / 2 ^ 73"
  define X where "X = x * x"
  define Y where "Y = y * y"
  define t where "t = rnd X + rnd Y"
  define S where "S = rnd t"
  define q where "q = sqrt S"
  define len where "len = rnd q"
  have X: "0 \<le> X" and Y: "0 \<le> Y"
    by (simp_all add: X_def Y_def)
  have t: "0 \<le> t"
    unfolding t_def using X Y by (intro add_nonneg_nonneg rnd_nonneg)
  have S: "0 \<le> S"
    unfolding S_def using t by (rule rnd_nonneg)
  have q: "0 \<le> q" "q * q = S"
    using S by (simp_all add: q_def)
  have len: "0 \<le> len"
    unfolding len_def using q(1) by (rule rnd_nonneg)
  have c: "0 \<le> c" "c \<le> 1" and h: "0 \<le> h" and k: "0 \<le> k" and e: "0 \<le> e"
    by (simp_all add: c_def h_def k_def e_def)
  have 1: "X * c \<le> rnd X + h" "Y * c \<le> rnd Y + h" "t * c \<le> S + h" "q * c \<le> len + h"
    using rnd_below [OF X] rnd_below [OF Y] rnd_below [OF t] rnd_below [OF q(1)]
    by (simp_all add: c_def h_def S_def len_def algebra_simps)
  have "(X + Y) * c \<le> t + 2 * h"
    using 1(1,2) by (simp add: t_def algebra_simps)
  then have "(X + Y) * c * c \<le> (t + 2 * h) * c"
    using c(1) by (rule mult_right_mono)
  also have "\<dots> \<le> S + h + 2 * h * 1"
    unfolding distrib_right using 1(3) c h by (intro add_mono mult_left_mono) simp_all
  finally have 2: "(X + Y) * c * c \<le> S + 3 * h"
    by simp
  have "(q * c) * (q * c) \<le> (len + h) * (len + h)"
    using 1(4) q(1) c(1) len h by (intro mult_mono) simp_all
  then have 3: "S * (c * c) \<le> (len + h) * (len + h)"
    using q(2) by (simp add: algebra_simps)
  have "(X + Y) * c * c * (c * c) \<le> (S + 3 * h) * (c * c)"
    using 2 c(1) by (intro mult_right_mono) simp_all
  also have "\<dots> = S * (c * c) + 3 * h * (c * c)"
    by (simp add: algebra_simps)
  also have "\<dots> \<le> (len + h) * (len + h) + 3 * h * 1"
    using 3 c h by (intro add_mono mult_left_mono mult_le_one) simp_all
  also have "\<dots> = 1 * (len * len) + (2 * h) * len + (h * h + 3 * h)"
    by (simp add: algebra_simps)
  also have "\<dots> \<le> (c * c * c * c * k * k) * (len * len) + (2 * c * c * c * c * k * e) * len
      + c * c * c * c * e * e"
  proof -
    have "1 \<le> c * c * c * c * k * k" "2 * h \<le> 2 * c * c * c * c * k * e"
      "h * h + 3 * h \<le> c * c * c * c * e * e"
      by (simp_all add: c_def k_def h_def e_def)
    then show ?thesis
      using len by (intro add_mono mult_right_mono) simp_all
  qed
  also have "\<dots> = (k * len + e) * (k * len + e) * (c * c * c * c)"
    by (simp add: algebra_simps)
  finally have "(X + Y) * (c * c * c * c) \<le> (k * len + e) * (k * len + e) * (c * c * c * c)"
    by (simp add: algebra_simps)
  moreover have "0 < c * c * c * c"
    by (simp add: c_def)
  ultimately have "X + Y \<le> (k * len + e) * (k * len + e)"
    by (rule mult_right_le_imp_le)
  then have "sqrt (X + Y) \<le> k * len + e"
    using k e len by (intro real_le_lsqrt) (simp_all add: power2_eq_square)
  then show ?thesis
    by (simp add: X_def Y_def k_def e_def len_def q_def S_def t_def)
qed

lemma rnd_pows: "rnd (2 ^ 61) = 2 ^ 61" "rnd (2 ^ 120) = 2 ^ 120" "rnd (2 ^ 121) = 2 ^ 121"
  by (simp_all add: f32_eval)

text \<open>The branch of the clamp, for a computed length \<open>len\<close> of the accuracy above.\<close>

lemma clamp_branch:
  assumes m: "0 \<le> m" and x: "\<bar>x\<bar> \<le> 2 ^ 60" and y: "\<bar>y\<bar> \<le> 2 ^ 60"
    and len: "0 \<le> len" "len \<le> 2 ^ 62"
    and acc: "sqrt (x * x + y * y) \<le> (1 + 3 / 2 ^ 24) * len + 1 / 2 ^ 73"
  shows "\<exists>x' y'.
      (if flt (Finite m) (Finite len) \<and> flt (f32_of_int 0) (Finite len)
       then \<lparr>f_x = fmul (Finite x) (fdiv (Finite m) (Finite len)),
             f_y = fmul (Finite y) (fdiv (Finite m) (Finite len))\<rparr>
       else \<lparr>f_x = Finite x, f_y = Finite y\<rparr>) = \<lparr>f_x = Finite x', f_y = Finite y'\<rparr>
      \<and> sqrt (x' * x' + y' * y') \<le> m * (1 + 1 / 2 ^ 21) + 1 / 2 ^ 70"
proof (cases "m < len")
  case True
  define s where "s = rnd (m / len)"
  have t: "0 \<le> m / len" "m / len \<le> 1"
    using True m by simp_all
  have s: "0 \<le> s" "s \<le> 1"
    unfolding s_def using t rnd_consts(2) by (simp_all add: rnd_nonneg rnd_upper)
  have "round_f32 (m / len) = Finite s"
    unfolding s_def using t by (intro round_f32_finite) simp
  moreover have "len \<noteq> 0"
    using True m by simp
  ultimately have d: "fdiv (Finite m) (Finite len) = Finite s"
    by simp
  have "\<bar>x * s\<bar> \<le> 2 ^ 60 * 1" "\<bar>y * s\<bar> \<le> 2 ^ 60 * 1"
    unfolding abs_mult using x y s by (intro mult_mono; simp)+
  then have p: "fmul (Finite x) (Finite s) = Finite (rnd (x * s))"
    "fmul (Finite y) (Finite s) = Finite (rnd (y * s))"
    by (simp_all add: round_f32_finite)
  have "sqrt (rnd (x * s) * rnd (x * s) + rnd (y * s) * rnd (y * s))
      \<le> m * (1 + 1 / 2 ^ 21) + 1 / 2 ^ 70"
    unfolding s_def using m True len(2) acc by (rule scaled_length)
  then show ?thesis
    unfolding d p using True m by (simp add: f32_of_int_consts)
next
  case False
  have "(1 + 3 / 2 ^ 24) * len + 1 / 2 ^ 73 \<le> m * (1 + 1 / 2 ^ 21) + 1 / 2 ^ 70"
    using False m len(1) by simp
  then show ?thesis
    using False acc by simp
qed

lemma vec_clamp_length_f32_run:
  assumes "0 \<le> m" "\<bar>x\<bar> \<le> 2 ^ 60" "\<bar>y\<bar> \<le> 2 ^ 60"
  shows "\<exists>x' y'.
      vec_clamp_length_f32 \<lparr>f_x = Finite x, f_y = Finite y\<rparr> (Finite m)
        = \<lparr>f_x = Finite x', f_y = Finite y'\<rparr>
      \<and> sqrt (x' * x' + y' * y') \<le> m * (1 + 1 / 2 ^ 21) + 1 / 2 ^ 70"
proof -
  define N where "N = sqrt (x * x + y * y)"
  have "x * x + y * y \<le> 2 ^ 60 * 2 ^ 60 + 2 ^ 60 * 2 ^ 60"
    using assms(2,3) by (intro add_mono square_bound)
  then have "x * x + y * y \<le> (2 ^ 61)\<^sup>2"
    by simp
  then have N: "0 \<le> N" "N \<le> 2 ^ 61"
    unfolding N_def by (simp_all add: real_le_lsqrt)
  have len: "0 \<le> rnd N" "rnd N \<le> 2 ^ 61"
    using N rnd_pows(1) by (simp_all add: rnd_nonneg rnd_upper)
  have "round_f32 N = Finite (rnd N)"
    using N by (intro round_f32_finite) simp
  then have v: "vec_len_f32 \<lparr>f_x = Finite x, f_y = Finite y\<rparr> = Finite (rnd N)"
    by (simp add: vec_len_f32_def N_def)
  have acc: "sqrt (x * x + y * y) \<le> (1 + 3 / 2 ^ 24) * rnd N + 1 / 2 ^ 73"
    using hypot_accuracy [OF N(1)] by (simp add: N_def)
  have "vec_clamp_length_f32 \<lparr>f_x = Finite x, f_y = Finite y\<rparr> (Finite m)
      = (if flt (Finite m) (Finite (rnd N)) \<and> flt (f32_of_int 0) (Finite (rnd N))
         then \<lparr>f_x = fmul (Finite x) (fdiv (Finite m) (Finite (rnd N))),
               f_y = fmul (Finite y) (fdiv (Finite m) (Finite (rnd N)))\<rparr>
         else \<lparr>f_x = Finite x, f_y = Finite y\<rparr>)"
    unfolding vec_clamp_length_f32_def v Let_def vec_scale_f32_def
    by (simp only: Vector2f.select_convs)
  then show ?thesis
    using clamp_branch [OF assms len(1) _ acc] len(2) by simp
qed

lemma VecClampLength_f32_run:
  assumes "0 \<le> m" "\<bar>x\<bar> \<le> 2 ^ 60" "\<bar>y\<bar> \<le> 2 ^ 60"
  shows "\<exists>x' y'.
      VecClampLength_f32 \<lparr>f_x = Finite x, f_y = Finite y\<rparr> (Finite m)
        = \<lparr>f_x = Finite x', f_y = Finite y'\<rparr>
      \<and> sqrt (x' * x' + y' * y') \<le> m * (1 + 1 / 2 ^ 21) + 1 / 2 ^ 70"
proof -
  define a where "a = rnd (x * x)"
  define b where "b = rnd (y * y)"
  define S where "S = rnd (a + b)"
  define len where "len = rnd (sqrt S)"
  have sq: "x * x \<le> 2 ^ 120" "y * y \<le> 2 ^ 120"
    using square_bound [OF assms(2)] square_bound [OF assms(3)] by simp_all
  have a: "0 \<le> a" "a \<le> 2 ^ 120" and b: "0 \<le> b" "b \<le> 2 ^ 120"
    unfolding a_def b_def using sq rnd_pows(2) by (simp_all add: rnd_nonneg rnd_upper)
  have S: "0 \<le> S" "S \<le> 2 ^ 121"
    unfolding S_def using a b rnd_pows(3) by (simp_all add: rnd_nonneg rnd_upper)
  have "S \<le> (2 ^ 61)\<^sup>2"
    using S(2) by simp
  then have q: "0 \<le> sqrt S" "sqrt S \<le> 2 ^ 61"
    using S(1) by (simp_all add: real_le_lsqrt)
  have len: "0 \<le> len" "len \<le> 2 ^ 61"
    unfolding len_def using q rnd_pows(1) by (simp_all add: rnd_nonneg rnd_upper)
  have "fmul (Finite x) (Finite x) = Finite a" "fmul (Finite y) (Finite y) = Finite b"
    using sq by (simp_all add: a_def b_def round_f32_finite)
  moreover have "fadd (Finite a) (Finite b) = Finite S"
    using a b by (simp add: S_def round_f32_finite)
  moreover have "fsqrt (Finite S) = Finite len"
    using S(1) q by (simp add: len_def round_f32_finite)
  ultimately have v: "VecLen_f32 \<lparr>f_x = Finite x, f_y = Finite y\<rparr> = Finite len"
    by (simp add: VecLen_f32_def)
  have acc: "sqrt (x * x + y * y) \<le> (1 + 3 / 2 ^ 24) * len + 1 / 2 ^ 73"
    unfolding len_def S_def a_def b_def by (rule VecLen_accuracy)
  have "VecClampLength_f32 \<lparr>f_x = Finite x, f_y = Finite y\<rparr> (Finite m)
      = (if flt (Finite m) (Finite len) \<and> flt (f32_of_int 0) (Finite len)
         then \<lparr>f_x = fmul (Finite x) (fdiv (Finite m) (Finite len)),
               f_y = fmul (Finite y) (fdiv (Finite m) (Finite len))\<rparr>
         else \<lparr>f_x = Finite x, f_y = Finite y\<rparr>)"
    unfolding VecClampLength_f32_def v Let_def VecScale_f32_def
    by (simp only: Vector2f.select_convs)
  then show ?thesis
    using clamp_branch [OF assms len(1) _ acc] len(2) by simp
qed

lemma vec_clamp_length_f32_keeps:
  assumes "is_f32 m" "sqrt (x * x + y * y) \<le> m"
  shows "vec_clamp_length_f32 \<lparr>f_x = Finite x, f_y = Finite y\<rparr> (Finite m)
      = \<lparr>f_x = Finite x, f_y = Finite y\<rparr>"
proof -
  define N where "N = sqrt (x * x + y * y)"
  have m: "rnd m = m" "\<bar>m\<bar> < 2 ^ 128"
    using assms(1) by (simp_all add: is_f32_iff)
  have "0 \<le> N"
    by (simp add: N_def)
  then have "0 \<le> rnd N" "rnd N \<le> m"
    using assms(2) m(1) by (simp_all add: rnd_nonneg rnd_upper N_def)
  then have "round_f32 N = Finite (rnd N) \<and> \<not> m < rnd N"
    using m(2) by (simp add: round_f32_def)
  then show ?thesis
    by (simp add: vec_clamp_length_f32_def vec_len_f32_def N_def)
qed

text \<open>
  C8, as stated, fails by rounding.  For \<open>v = (0, 565)\<close> and the bound 360 (the top
  speed of the ship) the factor \<open>360 / 565\<close> is rounded up, and so is the product: the
  clamped vector is \<open>(0, 360 + 2 ^ - 15)\<close>, longer than 360 in exact terms and as
  \<^verbatim>\<open>vec_len\<close> computes its length.  In \<^verbatim>\<open>part_000\<close> the squares of small components
  underflow: \<^verbatim>\<open>VecLen\<close> of \<open>(2 ^ - 80, 0)\<close> is 0, and the vector is returned as it is for
  the bound \<open>2 ^ - 100\<close>.
\<close>

theorem clamp_length_counterexample:
  "is_f32 565 \<and> is_f32 360
   \<and> vec_clamp_length_f32 \<lparr>f_x = Finite 0, f_y = Finite 565\<rparr> (Finite 360)
       = \<lparr>f_x = Finite 0, f_y = Finite (360 + 1 / 2 ^ 15)\<rparr>
   \<and> VecClampLength_f32 \<lparr>f_x = Finite 0, f_y = Finite 565\<rparr> (Finite 360)
       = \<lparr>f_x = Finite 0, f_y = Finite (360 + 1 / 2 ^ 15)\<rparr>
   \<and> \<not> sqrt (0 * 0 + (360 + 1 / 2 ^ 15) * (360 + 1 / 2 ^ 15)) \<le> (360::real)
   \<and> \<not> fle (vec_len_f32 \<lparr>f_x = Finite 0, f_y = Finite (360 + 1 / 2 ^ 15)\<rparr>) (Finite 360)
   \<and> is_f32 (1 / 2 ^ 80) \<and> is_f32 (1 / 2 ^ 100)
   \<and> VecClampLength_f32 \<lparr>f_x = Finite (1 / 2 ^ 80), f_y = Finite 0\<rparr> (Finite (1 / 2 ^ 100))
       = \<lparr>f_x = Finite (1 / 2 ^ 80), f_y = Finite 0\<rparr>
   \<and> \<not> sqrt ((1 / 2 ^ 80) * (1 / 2 ^ 80) + 0 * 0) \<le> (1 / 2 ^ 100 :: real)"
proof -
  have r: "sqrt 319225 = 565" "sqrt (139156963983361 / 1073741824) = 11796481 / 32768"
    using real_sqrt_abs2 [of 565] real_sqrt_abs2 [of "11796481 / 32768"] by simp_all
  have i: "is_f32 565" "is_f32 360"
    by (simp_all add: f32_eval)
  then have c: "round_f32 565 = Finite 565"
    by (simp add: is_f32_def)
  have d: "fdiv (Finite 360) (Finite 565) = Finite (2672477 / 4194304)"
    by (simp add: f32_eval)
  have p: "fmul (Finite 565) (Finite (2672477 / 4194304)) = Finite (11796481 / 32768)"
    "fmul (Finite 0) (Finite (2672477 / 4194304)) = Finite 0"
    "fmul (Finite 565) (Finite 565) = Finite 319225"
    "fadd (Finite 0) (Finite 319225) = Finite 319225"
    "fmul (Finite 0) (Finite 0) = Finite 0"
    "round_f32 (11796481 / 32768) = Finite (11796481 / 32768)"
    by (simp_all add: f32_eval)
  have 1: "vec_len_f32 \<lparr>f_x = Finite 0, f_y = Finite 565\<rparr> = Finite 565"
    "VecLen_f32 \<lparr>f_x = Finite 0, f_y = Finite 565\<rparr> = Finite 565"
    unfolding vec_len_f32_def VecLen_f32_def Vector2f.select_convs p
    by (simp_all add: r c)
  have 2: "vec_len_f32 \<lparr>f_x = Finite 0, f_y = Finite (11796481 / 32768)\<rparr>
      = Finite (11796481 / 32768)"
    unfolding vec_len_f32_def Vector2f.select_convs by (simp add: r p(6))
  have 3: "vec_clamp_length_f32 \<lparr>f_x = Finite 0, f_y = Finite 565\<rparr> (Finite 360)
      = \<lparr>f_x = Finite 0, f_y = Finite (11796481 / 32768)\<rparr>"
    "VecClampLength_f32 \<lparr>f_x = Finite 0, f_y = Finite 565\<rparr> (Finite 360)
      = \<lparr>f_x = Finite 0, f_y = Finite (11796481 / 32768)\<rparr>"
    unfolding vec_clamp_length_f32_def VecClampLength_f32_def 1 Let_def d vec_scale_f32_def
      VecScale_f32_def Vector2f.select_convs p f32_of_int_consts
    by simp_all
  have 4: "(360::real) + 1 / 2 ^ 15 = 11796481 / 32768"
    by simp
  have t: "is_f32 (1 / 2 ^ 80)" "is_f32 (1 / 2 ^ 100)"
    "fmul (Finite (1 / 2 ^ 80)) (Finite (1 / 2 ^ 80)) = Finite 0"
    "fadd (Finite 0) (Finite 0) = Finite 0" "round_f32 0 = Finite 0"
    by (simp_all add: f32_eval)
  have 5: "VecLen_f32 \<lparr>f_x = Finite (1 / 2 ^ 80), f_y = Finite 0\<rparr> = Finite 0"
    unfolding VecLen_f32_def Vector2f.select_convs t p by (simp add: t(5))
  have 6: "VecClampLength_f32 \<lparr>f_x = Finite (1 / 2 ^ 80), f_y = Finite 0\<rparr> (Finite (1 / 2 ^ 100))
      = \<lparr>f_x = Finite (1 / 2 ^ 80), f_y = Finite 0\<rparr>"
    unfolding VecClampLength_f32_def 5 Let_def by simp
  have 7: "\<not> sqrt ((1 / 2 ^ 80) * (1 / 2 ^ 80) + 0 * 0) \<le> (1 / 2 ^ 100 :: real)"
    using real_sqrt_abs2 [of "1 / 2 ^ 80"] by simp
  show ?thesis
    unfolding 4 3 2 6 using i t(1,2) 7 by (simp add: r)
qed

text \<open>
  C8, amended.  For every vector \<open>v\<close> with components up to \<open>2 ^ 60\<close> in magnitude and
  every bound \<open>max \<ge> 0\<close>, the clamped vector has length at most
  \<open>max * (1 + 2 ^ - 21) + 2 ^ - 70\<close>; it is \<open>v\<close> unchanged when the computed length of \<open>v\<close> is
  at most \<open>max\<close>, which in \<^verbatim>\<open>main.cpp\<close> it is whenever the exact length is; and the zero
  vector is returned unchanged for any bound, also an infinity or a NaN.  Both variants,
  in single precision.
\<close>

theorem clamp_length_bound:
  "(0 \<le> m \<and> \<bar>x\<bar> \<le> 2 ^ 60 \<and> \<bar>y\<bar> \<le> 2 ^ 60 \<longrightarrow>
      (\<exists>x' y'. vec_clamp_length_f32 \<lparr>f_x = Finite x, f_y = Finite y\<rparr> (Finite m)
            = \<lparr>f_x = Finite x', f_y = Finite y'\<rparr>
          \<and> sqrt (x' * x' + y' * y') \<le> m * (1 + 1 / 2 ^ 21) + 1 / 2 ^ 70)
      \<and> (\<exists>x' y'. VecClampLength_f32 \<lparr>f_x = Finite x, f_y = Finite y\<rparr> (Finite m)
            = \<lparr>f_x = Finite x', f_y = Finite y'\<rparr>
          \<and> sqrt (x' * x' + y' * y') \<le> m * (1 + 1 / 2 ^ 21) + 1 / 2 ^ 70))
   \<and> (fle (vec_len_f32 v) k \<longrightarrow> vec_clamp_length_f32 v k = v)
   \<and> (fle (VecLen_f32 v) k \<longrightarrow> VecClampLength_f32 v k = v)
   \<and> (is_f32 m \<and> sqrt (x * x + y * y) \<le> m \<longrightarrow>
        vec_clamp_length_f32 \<lparr>f_x = Finite x, f_y = Finite y\<rparr> (Finite m)
          = \<lparr>f_x = Finite x, f_y = Finite y\<rparr>)
   \<and> vec_clamp_length_f32 \<lparr>f_x = Finite 0, f_y = Finite 0\<rparr> k = \<lparr>f_x = Finite 0, f_y = Finite 0\<rparr>
   \<and> VecClampLength_f32 \<lparr>f_x = Finite 0, f_y = Finite 0\<rparr> k = \<lparr>f_x = Finite 0, f_y = Finite 0\<rparr>"
proof -
  have z: "round_f32 0 = Finite 0"
    by (simp add: round_f32_def rnd_zero)
  have "vec_clamp_length_f32 v k = v" if "fle (vec_len_f32 v) k"
    using fle_not_flt [OF that] by (simp add: vec_clamp_length_f32_def)
  moreover have "VecClampLength_f32 v k = v" if "fle (VecLen_f32 v) k"
    using fle_not_flt [OF that] by (simp add: VecClampLength_f32_def)
  moreover have
    "vec_clamp_length_f32 \<lparr>f_x = Finite 0, f_y = Finite 0\<rparr> k = \<lparr>f_x = Finite 0, f_y = Finite 0\<rparr>"
    by (simp add: vec_clamp_length_f32_def vec_len_f32_def z f32_of_int_consts Let_def)
  moreover have
    "VecClampLength_f32 \<lparr>f_x = Finite 0, f_y = Finite 0\<rparr> k = \<lparr>f_x = Finite 0, f_y = Finite 0\<rparr>"
    by (simp add: VecClampLength_f32_def VecLen_f32_def z f32_of_int_consts Let_def)
  ultimately show ?thesis
    using vec_clamp_length_f32_run [of m x y] VecClampLength_f32_run [of m x y]
      vec_clamp_length_f32_keeps [of m x y]
    by simp
qed

theorem clamp_length_bound_witness:
  "(\<exists>x' y'. vec_clamp_length_f32 \<lparr>f_x = Finite 0, f_y = Finite 565\<rparr> (Finite 360)
        = \<lparr>f_x = Finite x', f_y = Finite y'\<rparr>
      \<and> sqrt (x' * x' + y' * y') \<le> 360 * (1 + 1 / 2 ^ 21) + 1 / 2 ^ 70)
   \<and> (\<exists>x' y'. VecClampLength_f32 \<lparr>f_x = Finite 0, f_y = Finite 565\<rparr> (Finite 360)
        = \<lparr>f_x = Finite x', f_y = Finite y'\<rparr>
      \<and> sqrt (x' * x' + y' * y') \<le> 360 * (1 + 1 / 2 ^ 21) + 1 / 2 ^ 70)
   \<and> vec_clamp_length_f32 \<lparr>f_x = Finite 3, f_y = Finite 4\<rparr> (Finite 5)
       = \<lparr>f_x = Finite 3, f_y = Finite 4\<rparr>
   \<and> VecClampLength_f32 \<lparr>f_x = Finite 3, f_y = Finite 4\<rparr> (Finite 5)
       = \<lparr>f_x = Finite 3, f_y = Finite 4\<rparr>"
proof -
  have r: "sqrt 25 = 5"
    using real_sqrt_abs2 [of 5] by simp
  have "is_f32 5" "round_f32 5 = Finite 5"
    "fmul (Finite 3) (Finite 3) = Finite 9" "fmul (Finite 4) (Finite 4) = Finite 16"
    "fadd (Finite 9) (Finite 16) = Finite 25"
    by (simp_all add: f32_eval)
  then have "is_f32 5" "fle (VecLen_f32 \<lparr>f_x = Finite 3, f_y = Finite 4\<rparr>) (Finite 5)"
    by (simp_all add: VecLen_f32_def r)
  then show ?thesis
    using clamp_length_bound [of 360 0 565 "\<lparr>f_x = Finite 3, f_y = Finite 4\<rparr>" "Finite 5"]
      clamp_length_bound [of 5 3 4 "\<lparr>f_x = Finite 3, f_y = Finite 4\<rparr>" "Finite 5"]
    by (simp add: r)
qed

subsection \<open>The overlap test and the distance\<close>





subsection \<open>The positions drawn\<close>





subsection \<open>The rejection loop\<close>









subsection \<open>The generator keeps its sequence\<close>

lemma next_unit_seq: "next_unit g = (u, g1) \<Longrightarrow> fst g1 = fst g"
  by (auto simp add: next_unit_def)

lemma uniform_real_seq: "uniform_real a b g = (r, g1) \<Longrightarrow> fst g1 = fst g"
  by (auto simp add: uniform_real_def next_unit_def)

lemma uniform_int_seq: "uniform_int a b g = (r, g1) \<Longrightarrow> fst g1 = fst g"
  by (auto simp add: uniform_int_def next_unit_def)

lemma random_asteroid_velocity_seq:
  "random_asteroid_velocity sz g = (v, g1) \<Longrightarrow> fst g1 = fst g"
  by (auto simp add: random_asteroid_velocity_def Let_def split: prod.splits
      dest!: uniform_real_seq)

lemma generate_points_seq: "generate_points is n r g = (pts, g1) \<Longrightarrow> fst g1 = fst g"
proof (induction "is" arbitrary: g pts g1)
  case Nil
  then show ?case by simp
next
  case (Cons i "is")
  then show ?case
    by (auto simp add: Let_def split: prod.splits dest!: uniform_real_seq)
qed

lemma generate_shape_seq: "generate_shape r g = (pts, g1) \<Longrightarrow> fst g1 = fst g"
  by (auto simp add: generate_shape_def Let_def split: prod.splits
      dest!: uniform_int_seq generate_points_seq)

lemma radii_at_tier:
  "sz = 1 \<or> sz = 2 \<or> sz = 3 \<Longrightarrow>
   radii_at sz = Inr (if sz = 3 then 42 else if sz = 2 then 26 else 14)"
  by (auto simp add: radii_at_def ASTEROID_RADII_def)

lemma new_Asteroid_tier:
  assumes "sz = 1 \<or> sz = 2 \<or> sz = 3"
  shows "\<exists>a g1. new_Asteroid pos sz g = Inr (a, g1) \<and> a_pos a = pos \<and> a_size a = sz
           \<and> a_radius a = (if sz = 3 then 42 else if sz = 2 then 26 else 14) \<and> fst g1 = fst g"
proof -
  obtain v g1 where v: "random_asteroid_velocity sz g = (v, g1)"
    by (cases "random_asteroid_velocity sz g")
  obtain pts g2 where p:
    "generate_shape (if sz = 3 then 42 else if sz = 2 then 26 else 14) g1 = (pts, g2)"
    by (cases "generate_shape (if sz = 3 then 42 else if sz = 2 then 26 else 14) g1")
  have "fst g2 = fst g"
    using random_asteroid_velocity_seq [OF v] generate_shape_seq [OF p] by simp
  then show ?thesis
    using v p by (simp add: new_Asteroid_def radii_at_tier [OF assms])
qed

lemma new_child_tier:
  assumes "a_size a = 2 \<or> a_size a = 3"
  shows "\<exists>c g1. new_child a g = Inr (c, g1) \<and> pos_size c = (a_pos a, a_size a - 1)
           \<and> tier_ok c \<and> fst g1 = fst g"
proof -
  have t: "a_size a - 1 = 1 \<or> a_size a - 1 = 2 \<or> a_size a - 1 = 3"
    using assms by auto
  obtain c g1 where c: "new_Asteroid (a_pos a) (a_size a - 1) g = Inr (c, g1)"
    "a_pos c = a_pos a" "a_size c = a_size a - 1" "fst g1 = fst g"
    using new_Asteroid_tier [OF t, of "a_pos a" g] by blast
  obtain v g2 where v: "random_asteroid_velocity (a_size a - 1) g1 = (v, g2)"
    by (cases "random_asteroid_velocity (a_size a - 1) g1")
  have "fst g2 = fst g"
    using random_asteroid_velocity_seq [OF v] c(4) by simp
  then show ?thesis
    using c v t by (simp add: new_child_def pos_size_def tier_ok_def)
qed


subsection \<open>The bullet pass of \<^verbatim>\<open>main.cpp\<close>\<close>

lemma is_hit_iff: "is_hit bs a \<longleftrightarrow> (\<exists>b \<in> set bs. bullet_overlaps a b)"
  by (simp add: is_hit_def list_ex_iff)

lemma destroys_Cons_0: "destroys (b # bs) a 0 \<longleftrightarrow> bullet_overlaps a b"
  by (simp add: destroys_def)

lemma destroys_Cons_Suc:
  "destroys (b # bs) a (Suc i) \<longleftrightarrow> \<not> bullet_overlaps a b \<and> destroys bs a i"
  by (auto simp add: destroys_def)

lemma destroys_is_hit: "destroys bs a i \<Longrightarrow> is_hit bs a"
  by (auto simp add: destroys_def is_hit_iff)

lemma bullet_overlaps_pos: "b_pos b = b_pos c \<Longrightarrow> bullet_overlaps a b = bullet_overlaps a c"
  by (simp add: bullet_overlaps_def)

lemma is_hit_pos:
  assumes "map b_pos bs1 = map b_pos bs"
  shows "is_hit bs1 a = is_hit bs a"
proof -
  have h: "is_hit cs a \<longleftrightarrow> list_ex (\<lambda>p. circle_collision p 2 (a_pos a) (a_radius a)) (map b_pos cs)"
    for cs
    by (simp add: is_hit_def bullet_overlaps_def list_ex_iff)
  show ?thesis
    by (simp only: h assms)
qed

lemma destroys_pos:
  assumes "map b_pos bs1 = map b_pos bs"
  shows "destroys bs1 a i = destroys bs a i"
proof -
  have len: "length bs1 = length bs"
    using assms by (rule map_eq_imp_length_eq)
  have tk: "map b_pos (take i bs1) = map b_pos (take i bs)"
    using assms by (simp add: take_map [symmetric])
  have ex: "list_ex (bullet_overlaps a) (take i bs1) = list_ex (bullet_overlaps a) (take i bs)"
    using is_hit_pos [OF tk] by (simp add: is_hit_def)
  have "bullet_overlaps a (bs1 ! i) = bullet_overlaps a (bs ! i)" if "i < length bs"
  proof -
    have "b_pos (bs1 ! i) = map b_pos bs1 ! i"
      using that len by simp
    also have "\<dots> = b_pos (bs ! i)"
      using that assms by simp
    finally show ?thesis
      by (rule bullet_overlaps_pos)
  qed
  then show ?thesis
    using len ex by (auto simp add: destroys_def)
qed

lemma marked_pos:
  assumes "map b_pos bs1 = map b_pos bs"
  shows "marked bs1 as i = marked bs as i"
  unfolding marked_def destroys_pos [OF assms] ..

lemma hit_first_None: "hit_first a bs = None \<longleftrightarrow> \<not> is_hit bs a"
  by (induction bs) (auto simp add: is_hit_iff bullet_overlaps_def)

lemma hit_first_Some:
  "hit_first a bs = Some bs1 \<Longrightarrow>
     length bs1 = length bs \<and> map b_pos bs1 = map b_pos bs
     \<and> (\<forall>i < length bs. bs1 ! i = (if destroys bs a i then (bs ! i)\<lparr>b_life := 0\<rparr> else bs ! i))"
proof (induction bs arbitrary: bs1)
  case Nil
  then show ?case by simp
next
  case (Cons b bs)
  show ?case
  proof (cases "bullet_overlaps a b")
    case True
    then have bs1: "bs1 = b\<lparr>b_life := 0\<rparr> # bs"
      using Cons.prems by (simp add: bullet_overlaps_def)
    have "bs1 ! i = (if destroys (b # bs) a i then ((b # bs) ! i)\<lparr>b_life := 0\<rparr> else (b # bs) ! i)"
      for i
      using True by (cases i) (simp_all add: bs1 destroys_Cons_0 destroys_Cons_Suc)
    then show ?thesis
      by (simp add: bs1)
  next
    case False
    then obtain cs where cs: "hit_first a bs = Some cs" "bs1 = b # cs"
      using Cons.prems by (auto simp add: bullet_overlaps_def)
    note ih = Cons.IH [OF cs(1)]
    have "bs1 ! i = (if destroys (b # bs) a i then ((b # bs) ! i)\<lparr>b_life := 0\<rparr> else (b # bs) ! i)"
      if "i < length (b # bs)" for i
      using that False ih by (cases i) (simp_all add: cs(2) destroys_Cons_0 destroys_Cons_Suc)
    then show ?thesis
      using ih by (simp add: cs(2))
  qed
qed

lemma mark_bullets_length: "length (mark_bullets bs as) = length bs"
  by (simp add: mark_bullets_def)

lemma mark_bullets_nth:
  "i < length bs \<Longrightarrow>
   mark_bullets bs as ! i = (if marked bs as i then (bs ! i)\<lparr>b_life := 0\<rparr> else bs ! i)"
  by (simp add: mark_bullets_def)

lemma mark_bullets_Nil: "mark_bullets bs [] = bs"
  by (rule nth_equalityI) (simp_all add: mark_bullets_length mark_bullets_nth marked_def)

lemma mark_bullets_miss: "\<not> is_hit bs a \<Longrightarrow> mark_bullets bs (a # as) = mark_bullets bs as"
proof (rule nth_equalityI)
  show "length (mark_bullets bs (a # as)) = length (mark_bullets bs as)"
    by (simp add: mark_bullets_length)
next
  fix i
  assume "\<not> is_hit bs a" "i < length (mark_bullets bs (a # as))"
  then show "mark_bullets bs (a # as) ! i = mark_bullets bs as ! i"
    using destroys_is_hit [of bs a i] by (auto simp add: mark_bullets_length mark_bullets_nth marked_def)
qed

lemma marked_Cons: "marked bs (a # as) i \<longleftrightarrow> destroys bs a i \<or> marked bs as i"
  by (simp add: marked_def)

lemma mark_bullets_hit:
  assumes "hit_first a bs = Some bs1"
  shows "mark_bullets bs1 as = mark_bullets bs (a # as)"
proof (rule nth_equalityI)
  show "length (mark_bullets bs1 as) = length (mark_bullets bs (a # as))"
    using hit_first_Some [OF assms] by (simp add: mark_bullets_length)
next
  fix i
  assume "i < length (mark_bullets bs1 as)"
  then have i: "i < length bs" "i < length bs1"
    using hit_first_Some [OF assms] by (simp_all add: mark_bullets_length)
  have m: "marked bs1 as i = marked bs as i"
    using hit_first_Some [OF assms] by (intro marked_pos) simp
  have n: "bs1 ! i = (if destroys bs a i then (bs ! i)\<lparr>b_life := 0\<rparr> else bs ! i)"
    using hit_first_Some [OF assms] i(1) by blast
  have l: "mark_bullets bs1 as ! i = (if marked bs as i then (bs1 ! i)\<lparr>b_life := 0\<rparr> else bs1 ! i)"
    using i(2) by (simp only: mark_bullets_nth m)
  have r: "mark_bullets bs (a # as) ! i
      = (if destroys bs a i \<or> marked bs as i then (bs ! i)\<lparr>b_life := 0\<rparr> else bs ! i)"
    using i(1) by (simp only: mark_bullets_nth marked_Cons)
  show "mark_bullets bs1 as ! i = mark_bullets bs (a # as) ! i"
    unfolding l r n by simp
qed

lemma bullets_vs_asteroids_run:
  assumes "\<forall>a \<in> set as. tier_ok a"
  shows "\<exists>new g1.
     bullets_vs_asteroids as (bs, sc, nw, rm, g) =
       Inr (mark_bullets bs as,
            sc + sum_list (map (\<lambda>a. 10 * a_size a) (filter (is_hit bs) as)),
            nw @ new, rm @ filter (\<lambda>a. \<not> is_hit bs a) as, g1)
     \<and> map pos_size new = concat (map children_of (filter (is_hit bs) as))
     \<and> (\<forall>c \<in> set new. tier_ok c) \<and> fst g1 = fst g"
  using assms
proof (induction as arbitrary: bs sc nw rm g)
  case Nil
  then show ?case
    by (simp add: mark_bullets_Nil)
next
  case (Cons a as)
  then have tiers: "\<forall>a \<in> set as. tier_ok a" and ta: "tier_ok a"
    by simp_all
  show ?case
  proof (cases "hit_first a bs")
    case None
    then have miss: "\<not> is_hit bs a"
      by (simp add: hit_first_None)
    obtain new g1 where
      "bullets_vs_asteroids as (bs, sc, nw, rm @ [a], g) =
         Inr (mark_bullets bs as,
              sc + sum_list (map (\<lambda>a. 10 * a_size a) (filter (is_hit bs) as)),
              nw @ new, (rm @ [a]) @ filter (\<lambda>a. \<not> is_hit bs a) as, g1)"
      "map pos_size new = concat (map children_of (filter (is_hit bs) as))"
      "\<forall>c \<in> set new. tier_ok c" "fst g1 = fst g"
      using Cons.IH [OF tiers, of bs sc nw "rm @ [a]" g] by blast
    then show ?thesis
      using None miss by (auto simp add: mark_bullets_miss)
  next
    case (Some bs1)
    then have hit: "is_hit bs a"
      using hit_first_None [of a bs] by simp
    have "map b_pos bs1 = map b_pos bs"
      using hit_first_Some [OF Some] by simp
    then have same: "is_hit bs1 = is_hit bs"
      by (intro ext is_hit_pos)
    show ?thesis
    proof (cases "a_size a > 1")
      case True
      then have big: "a_size a = 2 \<or> a_size a = 3"
        using ta by (auto simp add: tier_ok_def)
      obtain c1 g1 where c1: "new_child a g = Inr (c1, g1)"
        "pos_size c1 = (a_pos a, a_size a - 1)" "tier_ok c1" "fst g1 = fst g"
        using new_child_tier [OF big, of g] by blast
      obtain c2 g2 where c2: "new_child a g1 = Inr (c2, g2)"
        "pos_size c2 = (a_pos a, a_size a - 1)" "tier_ok c2" "fst g2 = fst g1"
        using new_child_tier [OF big, of g1] by blast
      obtain new g3 where r:
        "bullets_vs_asteroids as (bs1, sc + 10 * a_size a, nw @ [c1, c2], rm, g2) =
           Inr (mark_bullets bs1 as,
                sc + 10 * a_size a + sum_list (map (\<lambda>a. 10 * a_size a) (filter (is_hit bs1) as)),
                (nw @ [c1, c2]) @ new, rm @ filter (\<lambda>a. \<not> is_hit bs1 a) as, g3)"
        "map pos_size new = concat (map children_of (filter (is_hit bs1) as))"
        "\<forall>c \<in> set new. tier_ok c" "fst g3 = fst g2"
        using Cons.IH [OF tiers, of bs1 "sc + 10 * a_size a" "nw @ [c1, c2]" rm g2] by blast
      have "bullets_vs_asteroids (a # as) (bs, sc, nw, rm, g) =
           Inr (mark_bullets bs (a # as),
                sc + sum_list (map (\<lambda>a. 10 * a_size a) (filter (is_hit bs) (a # as))),
                nw @ ([c1, c2] @ new), rm @ filter (\<lambda>a. \<not> is_hit bs a) (a # as), g3)"
        using Some True hit c1(1) c2(1) r(1)
        by (simp add: Let_def same mark_bullets_hit [OF Some])
      moreover have "map pos_size ([c1, c2] @ new)
          = concat (map children_of (filter (is_hit bs) (a # as)))"
        using hit True c1(2) c2(2) r(2) by (simp add: same children_of_def)
      moreover have "\<forall>c \<in> set ([c1, c2] @ new). tier_ok c"
        using c1(3) c2(3) r(3) by simp
      moreover have "fst g3 = fst g"
        using c1(4) c2(4) r(4) by simp
      ultimately show ?thesis
        by blast
    next
      case False
      obtain new g3 where r:
        "bullets_vs_asteroids as (bs1, sc + 10 * a_size a, nw, rm, g) =
           Inr (mark_bullets bs1 as,
                sc + 10 * a_size a + sum_list (map (\<lambda>a. 10 * a_size a) (filter (is_hit bs1) as)),
                nw @ new, rm @ filter (\<lambda>a. \<not> is_hit bs1 a) as, g3)"
        "map pos_size new = concat (map children_of (filter (is_hit bs1) as))"
        "\<forall>c \<in> set new. tier_ok c" "fst g3 = fst g"
        using Cons.IH [OF tiers, of bs1 "sc + 10 * a_size a" nw rm g] by blast
      have "bullets_vs_asteroids (a # as) (bs, sc, nw, rm, g) =
           Inr (mark_bullets bs (a # as),
                sc + sum_list (map (\<lambda>a. 10 * a_size a) (filter (is_hit bs) (a # as))),
                nw @ new, rm @ filter (\<lambda>a. \<not> is_hit bs a) (a # as), g3)"
        using Some False hit r(1)
        by (simp add: Let_def same mark_bullets_hit [OF Some])
      moreover have "map pos_size new = concat (map children_of (filter (is_hit bs) (a # as)))"
        using hit False r(2) by (simp add: same children_of_def)
      ultimately show ?thesis
        using r(3) r(4) by blast
    qed
  qed
qed


subsection \<open>The bullet pass of \<^verbatim>\<open>part_000\<close>\<close>

lemma RandomRange_seq: "RandomRange a b g = (r, g1) \<Longrightarrow> fst g1 = fst g"
  by (auto simp add: RandomRange_def next_unit_def)

lemma GetRandomValue_seq: "GetRandomValue a b g = (r, g1) \<Longrightarrow> fst g1 = fst g"
  by (auto simp add: GetRandomValue_def next_unit_def)

lemma RandomAsteroidVelocity_seq:
  "RandomAsteroidVelocity sz g = (v, g1) \<Longrightarrow> fst g1 = fst g"
  by (auto simp add: RandomAsteroidVelocity_def Let_def split: prod.splits
      dest!: RandomRange_seq)

lemma GeneratePoints_seq: "GeneratePoints is n r g = (pts, g1) \<Longrightarrow> fst g1 = fst g"
proof (induction "is" arbitrary: g pts g1)
  case Nil
  then show ?case by simp
next
  case (Cons i "is")
  then show ?case
    by (auto simp add: Let_def split: prod.splits dest!: RandomRange_seq)
qed

lemma GenerateShape_seq: "GenerateShape r g = (pts, g1) \<Longrightarrow> fst g1 = fst g"
  by (auto simp add: GenerateShape_def Let_def split: prod.splits
      dest!: GetRandomValue_seq GeneratePoints_seq)

lemma Asteroid_ctor_fields:
  assumes "Asteroid_ctor p s g = (a, g1)"
  shows "a_pos a = p \<and> a_size a = s
    \<and> a_radius a = (if s = 3 then 42 else if s = 2 then 26 else 14) \<and> fst g1 = fst g"
proof -
  obtain v g2 where v: "RandomAsteroidVelocity s g = (v, g2)"
    by (cases "RandomAsteroidVelocity s g")
  obtain pts g3 where p:
    "GenerateShape (if s = 3 then 42 else if s = 2 then 26 else 14) g2 = (pts, g3)"
    by (cases "GenerateShape (if s = 3 then 42 else if s = 2 then 26 else 14) g2")
  have "fst g3 = fst g"
    using RandomAsteroidVelocity_seq [OF v] GenerateShape_seq [OF p] by simp
  then show ?thesis
    using assms v p by (auto simp add: Asteroid_ctor_def Let_def)
qed

lemma BulletOverlaps_eq: "BulletOverlaps = bullet_overlaps"
  by (intro ext) (simp add: BulletOverlaps_def bullet_overlaps_def CircleCollision_eq)

lemma PlayerOverlaps_eq: "PlayerOverlaps = player_overlaps"
  by (intro ext) (simp add: PlayerOverlaps_def player_overlaps_def CircleCollision_eq)

lemma IsHit_eq: "IsHit = is_hit"
  by (intro ext) (simp add: IsHit_def is_hit_def BulletOverlaps_eq)

lemma Destroys_eq: "Destroys = destroys"
  by (intro ext) (simp add: Destroys_def destroys_def BulletOverlaps_eq)

lemma Marked_eq: "Marked = marked"
  by (intro ext) (simp add: Marked_def marked_def Destroys_eq)

lemma MarkBullets_eq: "MarkBullets = mark_bullets"
  by (intro ext) (simp add: MarkBullets_def mark_bullets_def Marked_eq)

lemma HitFirst_eq: "HitFirst a bs = hit_first a bs"
  by (induction bs) (simp_all add: CircleCollision_eq)

text \<open>
  What one asteroid leaves in \<^verbatim>\<open>newAsteroids\<close>: itself when no bullet overlaps it, its
  children otherwise.
\<close>

lemma BulletsVsAsteroids_run:
  "\<exists>css g1.
     BulletsVsAsteroids as (bs, sc, nw, g) =
       (mark_bullets bs as,
        sc + sum_list (map (\<lambda>a. 10 * a_size a) (filter (is_hit bs) as)),
        nw @ concat css, g1)
     \<and> list_all2 (\<lambda>a cs. if is_hit bs a then map pos_size cs = children_of a else cs = [a])
           as css
     \<and> fst g1 = fst g"
proof (induction as arbitrary: bs sc nw g)
  case Nil
  then show ?case
    by (simp add: mark_bullets_Nil)
next
  case (Cons a as)
  show ?case
  proof (cases "hit_first a bs")
    case None
    then have miss: "\<not> is_hit bs a"
      by (simp add: hit_first_None)
    obtain css g1 where r:
      "BulletsVsAsteroids as (bs, sc, nw @ [a], g) =
         (mark_bullets bs as,
          sc + sum_list (map (\<lambda>a. 10 * a_size a) (filter (is_hit bs) as)),
          (nw @ [a]) @ concat css, g1)"
      "list_all2 (\<lambda>a cs. if is_hit bs a then map pos_size cs = children_of a else cs = [a])
         as css"
      "fst g1 = fst g"
      using Cons.IH [of bs sc "nw @ [a]" g] by blast
    have "BulletsVsAsteroids (a # as) (bs, sc, nw, g) =
         (mark_bullets bs (a # as),
          sc + sum_list (map (\<lambda>a. 10 * a_size a) (filter (is_hit bs) (a # as))),
          nw @ concat ([a] # css), g1)"
      using None miss r(1) by (simp add: HitFirst_eq mark_bullets_miss)
    moreover have "list_all2
        (\<lambda>a cs. if is_hit bs a then map pos_size cs = children_of a else cs = [a])
        (a # as) ([a] # css)"
      using miss r(2) by simp
    ultimately show ?thesis
      using r(3) by blast
  next
    case (Some bs1)
    then have hit: "is_hit bs a"
      using hit_first_None [of a bs] by simp
    have "map b_pos bs1 = map b_pos bs"
      using hit_first_Some [OF Some] by simp
    then have same: "is_hit bs1 = is_hit bs"
      by (intro ext is_hit_pos)
    show ?thesis
    proof (cases "a_size a > 1")
      case True
      obtain c1 g1 where c1: "Asteroid_ctor (a_pos a) (a_size a - 1) g = (c1, g1)"
        by (cases "Asteroid_ctor (a_pos a) (a_size a - 1) g")
      obtain c2 g2 where c2: "Asteroid_ctor (a_pos a) (a_size a - 1) g1 = (c2, g2)"
        by (cases "Asteroid_ctor (a_pos a) (a_size a - 1) g1")
      note f1 = Asteroid_ctor_fields [OF c1] and f2 = Asteroid_ctor_fields [OF c2]
      obtain css g3 where r:
        "BulletsVsAsteroids as (bs1, sc + 10 * a_size a, nw @ [c1, c2], g2) =
           (mark_bullets bs1 as,
            sc + 10 * a_size a + sum_list (map (\<lambda>a. 10 * a_size a) (filter (is_hit bs1) as)),
            (nw @ [c1, c2]) @ concat css, g3)"
        "list_all2 (\<lambda>a cs. if is_hit bs1 a then map pos_size cs = children_of a else cs = [a])
           as css"
        "fst g3 = fst g2"
        using Cons.IH [of bs1 "sc + 10 * a_size a" "nw @ [c1, c2]" g2] by blast
      have "BulletsVsAsteroids (a # as) (bs, sc, nw, g) =
           (mark_bullets bs (a # as),
            sc + sum_list (map (\<lambda>a. 10 * a_size a) (filter (is_hit bs) (a # as))),
            nw @ concat ([c1, c2] # css), g3)"
        using Some True hit c1 c2 r(1)
        by (simp add: HitFirst_eq Let_def same mark_bullets_hit [OF Some])
      moreover have "list_all2
          (\<lambda>a cs. if is_hit bs a then map pos_size cs = children_of a else cs = [a])
          (a # as) ([c1, c2] # css)"
        using hit True f1 f2 r(2) by (simp add: same children_of_def pos_size_def)
      moreover have "fst g3 = fst g"
        using f1 f2 r(3) by simp
      ultimately show ?thesis
        by blast
    next
      case False
      obtain css g3 where r:
        "BulletsVsAsteroids as (bs1, sc + 10 * a_size a, nw, g) =
           (mark_bullets bs1 as,
            sc + 10 * a_size a + sum_list (map (\<lambda>a. 10 * a_size a) (filter (is_hit bs1) as)),
            nw @ concat css, g3)"
        "list_all2 (\<lambda>a cs. if is_hit bs1 a then map pos_size cs = children_of a else cs = [a])
           as css"
        "fst g3 = fst g"
        using Cons.IH [of bs1 "sc + 10 * a_size a" nw g] by blast
      have "BulletsVsAsteroids (a # as) (bs, sc, nw, g) =
           (mark_bullets bs (a # as),
            sc + sum_list (map (\<lambda>a. 10 * a_size a) (filter (is_hit bs) (a # as))),
            nw @ concat ([] # css), g3)"
        using Some False hit r(1)
        by (simp add: HitFirst_eq Let_def same mark_bullets_hit [OF Some])
      moreover have "list_all2
          (\<lambda>a cs. if is_hit bs a then map pos_size cs = children_of a else cs = [a])
          (a # as) ([] # css)"
        using hit False r(2) by (simp add: same children_of_def)
      ultimately show ?thesis
        using r(3) by blast
    qed
  qed
qed


subsection \<open>The player pass and the whole of collision resolution\<close>

lemma player_hits_miss:
  "\<forall>a \<in> set as. \<not> player_overlaps (player gm) a \<Longrightarrow> player_hits gm as = gm"
  by (induction as) (auto simp add: player_overlaps_def)

lemma player_hits_hit:
  "\<exists>a \<in> set as. player_overlaps (player gm) a \<Longrightarrow>
   player_hits gm as =
     gm\<lparr>lives := lives gm - 1, player := Player_reset (player gm),
        game_over := (lives gm - 1 \<le> 0 \<or> game_over gm)\<rparr>"
  by (induction as) (auto simp add: player_overlaps_def Let_def)

lemma PlayerHits_eq: "PlayerHits gm as = player_hits gm as"
  by (induction as) (simp_all add: CircleCollision_eq Player_Reset_def Player_reset_def)

lemma PlayerVsAsteroids_eq: "PlayerVsAsteroids = player_vs_asteroids"
  by (rule ext) (simp add: PlayerVsAsteroids_def player_vs_asteroids_def PlayerHits_eq)

text \<open>The player pass touches the lives, the player and the game-over flag only.\<close>

lemma player_vs_asteroids_cases:
  "player_vs_asteroids gm = gm
   \<or> (p_invuln (player gm) \<le> 0 \<and> (\<exists>a \<in> set (asteroids gm). player_overlaps (player gm) a)
      \<and> player_vs_asteroids gm =
          gm\<lparr>lives := lives gm - 1, player := Player_reset (player gm),
             game_over := (lives gm - 1 \<le> 0 \<or> game_over gm)\<rparr>)"
proof (cases "\<exists>a \<in> set (asteroids gm). player_overlaps (player gm) a")
  case True
  then show ?thesis
    by (simp add: player_vs_asteroids_def player_hits_hit)
next
  case False
  then show ?thesis
    by (simp add: player_vs_asteroids_def player_hits_miss)
qed

lemma player_vs_asteroids_keeps:
  "score (player_vs_asteroids gm) = score gm \<and> wave (player_vs_asteroids gm) = wave gm
   \<and> asteroids (player_vs_asteroids gm) = asteroids gm
   \<and> bullets (player_vs_asteroids gm) = bullets gm"
  using player_vs_asteroids_cases [of gm] by auto

lemma handle_collisions_run:
  assumes "\<forall>a \<in> set (asteroids gm). tier_ok a"
  shows "\<exists>new g1.
     handle_collisions gm g =
       Inr (player_vs_asteroids
              (gm\<lparr>score := score gm
                    + sum_list (map (\<lambda>a. 10 * a_size a)
                        (filter (is_hit (bullets gm)) (asteroids gm))),
                  asteroids := filter (\<lambda>a. \<not> is_hit (bullets gm) a) (asteroids gm) @ new,
                  bullets := filter (\<lambda>b. \<not> b_life b \<le> 0)
                                (mark_bullets (bullets gm) (asteroids gm))\<rparr>),
            g1)
     \<and> map pos_size new = concat (map children_of (filter (is_hit (bullets gm)) (asteroids gm)))
     \<and> (\<forall>c \<in> set new. tier_ok c) \<and> fst g1 = fst g"
proof -
  obtain new g1 where r:
    "bullets_vs_asteroids (asteroids gm) (bullets gm, score gm, [], [], g) =
       Inr (mark_bullets (bullets gm) (asteroids gm),
            score gm + sum_list (map (\<lambda>a. 10 * a_size a)
              (filter (is_hit (bullets gm)) (asteroids gm))),
            [] @ new, [] @ filter (\<lambda>a. \<not> is_hit (bullets gm) a) (asteroids gm), g1)"
    "map pos_size new = concat (map children_of (filter (is_hit (bullets gm)) (asteroids gm)))"
    "\<forall>c \<in> set new. tier_ok c" "fst g1 = fst g"
    using bullets_vs_asteroids_run [OF assms, of "bullets gm" "score gm" "[]" "[]" g] by blast
  have "handle_collisions gm g =
       Inr (player_vs_asteroids
              (gm\<lparr>score := score gm
                    + sum_list (map (\<lambda>a. 10 * a_size a)
                        (filter (is_hit (bullets gm)) (asteroids gm))),
                  asteroids := filter (\<lambda>a. \<not> is_hit (bullets gm) a) (asteroids gm) @ new,
                  bullets := filter (\<lambda>b. \<not> b_life b \<le> 0)
                                (mark_bullets (bullets gm) (asteroids gm))\<rparr>),
            g1)"
    using r(1) by (simp add: handle_collisions_def Let_def)
  then show ?thesis
    using r(2-4) by blast
qed

lemma HandleCollisions_run:
  "\<exists>css g1.
     HandleCollisions gm g =
       (player_vs_asteroids
          (gm\<lparr>bullets := mark_bullets (bullets gm) (asteroids gm),
              score := score gm
                + sum_list (map (\<lambda>a. 10 * a_size a)
                    (filter (is_hit (bullets gm)) (asteroids gm))),
              asteroids := concat css\<rparr>),
        g1)
     \<and> list_all2 (\<lambda>a cs. if is_hit (bullets gm) a then map pos_size cs = children_of a
                         else cs = [a]) (asteroids gm) css
     \<and> fst g1 = fst g"
proof -
  obtain css g1 where r:
    "BulletsVsAsteroids (asteroids gm) (bullets gm, score gm, [], g) =
       (mark_bullets (bullets gm) (asteroids gm),
        score gm + sum_list (map (\<lambda>a. 10 * a_size a)
          (filter (is_hit (bullets gm)) (asteroids gm))),
        [] @ concat css, g1)"
    "list_all2 (\<lambda>a cs. if is_hit (bullets gm) a then map pos_size cs = children_of a
                       else cs = [a]) (asteroids gm) css"
    "fst g1 = fst g"
    using BulletsVsAsteroids_run [of "asteroids gm" "bullets gm" "score gm" "[]" g] by blast
  have "HandleCollisions gm g =
       (player_vs_asteroids
          (gm\<lparr>bullets := mark_bullets (bullets gm) (asteroids gm),
              score := score gm
                + sum_list (map (\<lambda>a. 10 * a_size a)
                    (filter (is_hit (bullets gm)) (asteroids gm))),
              asteroids := concat css\<rparr>),
        g1)"
    using r(1) by (simp add: HandleCollisions_def Let_def PlayerVsAsteroids_eq)
  then show ?thesis
    using r(2-3) by blast
qed

text \<open>Whatever collision resolution returns, it is the player pass applied last.\<close>

lemma handle_collisions_player_pass:
  "handle_collisions gm g = Inr (gm1, g1) \<Longrightarrow>
   \<exists>bs sc as. gm1 = player_vs_asteroids (gm\<lparr>score := sc, asteroids := as, bullets := bs\<rparr>)"
  by (auto simp add: handle_collisions_def Let_def split: sum.splits prod.splits)

lemma HandleCollisions_player_pass:
  "HandleCollisions gm g = (gm1, g1) \<Longrightarrow>
   \<exists>bs sc as. gm1 = player_vs_asteroids (gm\<lparr>bullets := bs, score := sc, asteroids := as\<rparr>)"
  by (auto simp add: HandleCollisions_def Let_def PlayerVsAsteroids_eq split: prod.splits)


subsection \<open>Claims about collision resolution\<close>

lemma Player_reset_fields:
  "p_pos (Player_reset p) = \<lparr>v_x = 450, v_y = 325\<rparr> \<and> p_invuln (Player_reset p) = 2"
  by (simp add: Player_reset_def SCREEN_WIDTH_def SCREEN_HEIGHT_def)

text \<open>
  C1.  While the invulnerability timer is above 0, the player pass changes nothing, and
  the whole of collision resolution leaves the lives as they are.  With the timer at or
  below 0 and at least one asteroid of the list overlapping the player, the pass takes
  exactly one life, puts the player at the centre \<open>(450, 325)\<close> of the screen and sets
  the timer to 2.  Both variants.
\<close>

theorem player_collision_pass:
  "(0 < p_invuln (player gm) \<longrightarrow> player_vs_asteroids gm = gm \<and> PlayerVsAsteroids gm = gm)
   \<and> (0 < p_invuln (player gm) \<and> handle_collisions gm g = Inr (gm1, g1)
        \<longrightarrow> lives gm1 = lives gm)
   \<and> (0 < p_invuln (player gm) \<and> HandleCollisions gm g = (gm2, g2)
        \<longrightarrow> lives gm2 = lives gm)
   \<and> (p_invuln (player gm) \<le> 0 \<and> (\<exists>a \<in> set (asteroids gm). player_overlaps (player gm) a)
        \<longrightarrow> lives (player_vs_asteroids gm) = lives gm - 1
            \<and> p_pos (player (player_vs_asteroids gm)) = \<lparr>v_x = 450, v_y = 325\<rparr>
            \<and> p_invuln (player (player_vs_asteroids gm)) = 2)
   \<and> (p_invuln (player gm) \<le> 0 \<and> (\<exists>a \<in> set (asteroids gm). PlayerOverlaps (player gm) a)
        \<longrightarrow> lives (PlayerVsAsteroids gm) = lives gm - 1
            \<and> p_pos (player (PlayerVsAsteroids gm)) = \<lparr>v_x = 450, v_y = 325\<rparr>
            \<and> p_invuln (player (PlayerVsAsteroids gm)) = 2)"
proof -
  have inv: "player_vs_asteroids gm = gm" if "0 < p_invuln (player gm)" for gm
    using that by (simp add: player_vs_asteroids_def)
  have a: "lives gm1 = lives gm"
    if h: "0 < p_invuln (player gm)" "handle_collisions gm g = Inr (gm1, g1)"
  proof -
    obtain bs sc as where
      "gm1 = player_vs_asteroids (gm\<lparr>score := sc, asteroids := as, bullets := bs\<rparr>)"
      using handle_collisions_player_pass [OF h(2)] by blast
    then show ?thesis
      using h(1) by (simp add: inv)
  qed
  have b: "lives gm2 = lives gm"
    if h: "0 < p_invuln (player gm)" "HandleCollisions gm g = (gm2, g2)"
  proof -
    obtain bs sc as where
      "gm2 = player_vs_asteroids (gm\<lparr>bullets := bs, score := sc, asteroids := as\<rparr>)"
      using HandleCollisions_player_pass [OF h(2)] by blast
    then show ?thesis
      using h(1) by (simp add: inv)
  qed
  have c: "lives (player_vs_asteroids gm) = lives gm - 1
      \<and> p_pos (player (player_vs_asteroids gm)) = \<lparr>v_x = 450, v_y = 325\<rparr>
      \<and> p_invuln (player (player_vs_asteroids gm)) = 2"
    if "p_invuln (player gm) \<le> 0"
      and "\<exists>a \<in> set (asteroids gm). player_overlaps (player gm) a"
    using that by (simp add: player_vs_asteroids_def player_hits_hit Player_reset_fields)
  show ?thesis
    using inv [of gm] a b c by (simp add: PlayerVsAsteroids_eq PlayerOverlaps_eq)
qed

theorem player_collision_pass_witness:
  "player_vs_asteroids (game_with (Player_reset Player_new) [] [rock 450 325 3 42] 3)
     = game_with (Player_reset Player_new) [] [rock 450 325 3 42] 3
   \<and> lives (player_vs_asteroids (game_with Player_new [] [rock 0 0 3 42, rock 450 300 3 42] 3)) = 2
   \<and> p_invuln (player (PlayerVsAsteroids
        (game_with (Player_ctor\<lparr>p_invuln := 0\<rparr>) [] [rock 0 0 3 42, rock 450 300 3 42] 3))) = 2"
proof -
  have 1: "0 < p_invuln (player (game_with (Player_reset Player_new) [] [rock 450 325 3 42] 3))"
    by (simp add: game_with_def Player_reset_def)
  have 2: "p_invuln (player (game_with Player_new [] [rock 0 0 3 42, rock 450 300 3 42] 3)) \<le> 0
    \<and> (\<exists>a \<in> set (asteroids (game_with Player_new [] [rock 0 0 3 42, rock 450 300 3 42] 3)).
          player_overlaps (player (game_with Player_new [] [rock 0 0 3 42, rock 450 300 3 42] 3)) a)"
    by (simp add: game_with_def Player_new_def rock_def player_overlaps_def circle_collision_def
        SHIP_RADIUS_def SCREEN_WIDTH_def SCREEN_HEIGHT_def)
  have 3: "p_invuln (player (game_with (Player_ctor\<lparr>p_invuln := 0\<rparr>) []
             [rock 0 0 3 42, rock 450 300 3 42] 3)) \<le> 0
    \<and> (\<exists>a \<in> set (asteroids (game_with (Player_ctor\<lparr>p_invuln := 0\<rparr>) []
             [rock 0 0 3 42, rock 450 300 3 42] 3)).
          PlayerOverlaps (player (game_with (Player_ctor\<lparr>p_invuln := 0\<rparr>) []
             [rock 0 0 3 42, rock 450 300 3 42] 3)) a)"
    by (simp add: game_with_def Player_ctor_def rock_def PlayerOverlaps_def CircleCollision_def
        SHIP_RADIUS_def SCREEN_WIDTH_def SCREEN_HEIGHT_def)
  show ?thesis
    using 1 2 3
      player_collision_pass [of "game_with (Player_reset Player_new) [] [rock 450 325 3 42] 3"]
      player_collision_pass [of "game_with Player_new [] [rock 0 0 3 42, rock 450 300 3 42] 3"]
      player_collision_pass [of "game_with (Player_ctor\<lparr>p_invuln := 0\<rparr>) []
         [rock 0 0 3 42, rock 450 300 3 42] 3"]
    by (simp add: game_with_def)
qed

text \<open>
  C2.  Collision resolution, for every asteroid that some bullet overlaps: the score
  grows by 10 times its size tier, the first bullet that overlaps it gets life 0
  (\<^verbatim>\<open>main.cpp\<close> erases such bullets before it returns; \<^verbatim>\<open>part_000\<close> at the next
  update), the asteroid is not among the survivors, and its children are two asteroids
  of the next smaller tier at its position when its tier is above 1, none otherwise.
  Asteroids no bullet overlaps are kept as they are.  In \<^verbatim>\<open>main.cpp\<close> the survivors
  come first and the children last; in \<^verbatim>\<open>part_000\<close> the children take the place of
  their parent.  \<^verbatim>\<open>main.cpp\<close> reads the radius of a child from \<^verbatim>\<open>ASTEROID_RADII\<close>,
  so there the tiers are taken to be 1, 2 or 3.
\<close>

theorem asteroid_hit_outcome:
  "((\<forall>a \<in> set (asteroids gm). tier_ok a) \<longrightarrow>
      (\<exists>gm1 g1 new.
         handle_collisions gm g = Inr (gm1, g1)
         \<and> score gm1 = score gm
             + sum_list (map (\<lambda>a. 10 * a_size a) (filter (is_hit (bullets gm)) (asteroids gm)))
         \<and> asteroids gm1 = filter (\<lambda>a. \<not> is_hit (bullets gm) a) (asteroids gm) @ new
         \<and> map pos_size new
             = concat (map children_of (filter (is_hit (bullets gm)) (asteroids gm)))
         \<and> bullets gm1
             = filter (\<lambda>b. \<not> b_life b \<le> 0) (mark_bullets (bullets gm) (asteroids gm))))
   \<and> (\<exists>gm2 g2 css.
         HandleCollisions gm g = (gm2, g2)
         \<and> score gm2 = score gm
             + sum_list (map (\<lambda>a. 10 * a_size a) (filter (IsHit (bullets gm)) (asteroids gm)))
         \<and> asteroids gm2 = concat css
         \<and> list_all2 (\<lambda>a cs. if IsHit (bullets gm) a then map pos_size cs = children_of a
                             else cs = [a]) (asteroids gm) css
         \<and> bullets gm2 = MarkBullets (bullets gm) (asteroids gm))"
proof (intro conjI impI)
  assume "\<forall>a \<in> set (asteroids gm). tier_ok a"
  then obtain new g1 where r:
    "handle_collisions gm g =
       Inr (player_vs_asteroids
              (gm\<lparr>score := score gm
                    + sum_list (map (\<lambda>a. 10 * a_size a)
                        (filter (is_hit (bullets gm)) (asteroids gm))),
                  asteroids := filter (\<lambda>a. \<not> is_hit (bullets gm) a) (asteroids gm) @ new,
                  bullets := filter (\<lambda>b. \<not> b_life b \<le> 0)
                                (mark_bullets (bullets gm) (asteroids gm))\<rparr>),
            g1)"
    "map pos_size new = concat (map children_of (filter (is_hit (bullets gm)) (asteroids gm)))"
    using handle_collisions_run [of gm g] by blast
  show "\<exists>gm1 g1 new.
         handle_collisions gm g = Inr (gm1, g1)
         \<and> score gm1 = score gm
             + sum_list (map (\<lambda>a. 10 * a_size a) (filter (is_hit (bullets gm)) (asteroids gm)))
         \<and> asteroids gm1 = filter (\<lambda>a. \<not> is_hit (bullets gm) a) (asteroids gm) @ new
         \<and> map pos_size new
             = concat (map children_of (filter (is_hit (bullets gm)) (asteroids gm)))
         \<and> bullets gm1
             = filter (\<lambda>b. \<not> b_life b \<le> 0) (mark_bullets (bullets gm) (asteroids gm))"
    unfolding r(1) using r(2) by (simp add: player_vs_asteroids_keeps)
next
  obtain css g2 where r:
    "HandleCollisions gm g =
       (player_vs_asteroids
          (gm\<lparr>bullets := mark_bullets (bullets gm) (asteroids gm),
              score := score gm
                + sum_list (map (\<lambda>a. 10 * a_size a)
                    (filter (is_hit (bullets gm)) (asteroids gm))),
              asteroids := concat css\<rparr>),
        g2)"
    "list_all2 (\<lambda>a cs. if is_hit (bullets gm) a then map pos_size cs = children_of a
                       else cs = [a]) (asteroids gm) css"
    using HandleCollisions_run [of gm g] by blast
  show "\<exists>gm2 g2 css.
         HandleCollisions gm g = (gm2, g2)
         \<and> score gm2 = score gm
             + sum_list (map (\<lambda>a. 10 * a_size a) (filter (IsHit (bullets gm)) (asteroids gm)))
         \<and> asteroids gm2 = concat css
         \<and> list_all2 (\<lambda>a cs. if IsHit (bullets gm) a then map pos_size cs = children_of a
                             else cs = [a]) (asteroids gm) css
         \<and> bullets gm2 = MarkBullets (bullets gm) (asteroids gm)"
    unfolding r(1) using r(2)
    by (simp add: player_vs_asteroids_keeps IsHit_eq MarkBullets_eq split del: if_split)
      (rule exI [of _ css], simp)
qed


text \<open>The sample data and the overlap tests, unfolded for closed instances.\<close>

lemmas sample_defs = game_with_def rock_def shot_def Player_new_def Player_ctor_def
  SCREEN_WIDTH_def SCREEN_HEIGHT_def

lemmas overlap_defs = is_hit_def IsHit_def bullet_overlaps_def BulletOverlaps_def
  circle_collision_def CircleCollision_def

theorem asteroid_hit_outcome_witness:
  "(\<exists>gm1 g1 new.
      handle_collisions
        (game_with Player_new [shot 100 100] [rock 100 100 3 42, rock 500 500 1 14] 3)
        (\<lambda>n. 0, 0) = Inr (gm1, g1)
      \<and> score gm1 = 30 \<and> asteroids gm1 = rock 500 500 1 14 # new
      \<and> map pos_size new = [(\<lparr>v_x = 100, v_y = 100\<rparr>, 2), (\<lparr>v_x = 100, v_y = 100\<rparr>, 2)]
      \<and> bullets gm1 = [])
   \<and> (\<exists>gm2 g2.
      HandleCollisions
        (game_with Player_ctor [shot 100 100] [rock 100 100 3 42, rock 500 500 1 14] 3)
        (\<lambda>n. 0, 0) = (gm2, g2)
      \<and> score gm2 = 30 \<and> bullets gm2 = [(shot 100 100)\<lparr>b_life := 0\<rparr>])"
proof -
  let ?G = "game_with Player_new [shot 100 100] [rock 100 100 3 42, rock 500 500 1 14] 3"
  let ?H = "game_with Player_ctor [shot 100 100] [rock 100 100 3 42, rock 500 500 1 14] 3"
  have t: "\<forall>a \<in> set (asteroids ?G). tier_ok a"
    by (simp add: sample_defs tier_ok_def)
  have m: "mark_bullets [shot 100 100] [rock 100 100 3 42, rock 500 500 1 14]
      = [(shot 100 100)\<lparr>b_life := 0\<rparr>]"
    by (simp add: mark_bullets_def marked_def destroys_def sample_defs overlap_defs)
  have h: "filter (is_hit [shot 100 100]) [rock 100 100 3 42, rock 500 500 1 14]
      = [rock 100 100 3 42]"
    "filter (\<lambda>a. \<not> is_hit [shot 100 100] a) [rock 100 100 3 42, rock 500 500 1 14]
      = [rock 500 500 1 14]"
    by (simp_all add: sample_defs overlap_defs)
  have c: "children_of (rock 100 100 3 42)
      = [(\<lparr>v_x = 100, v_y = 100\<rparr>, 2), (\<lparr>v_x = 100, v_y = 100\<rparr>, 2)]"
    by (simp add: children_of_def rock_def)
  have s: "score ?G = 0" "bullets ?G = [shot 100 100]"
    "asteroids ?G = [rock 100 100 3 42, rock 500 500 1 14]"
    "score ?H = 0" "bullets ?H = [shot 100 100]"
    "asteroids ?H = [rock 100 100 3 42, rock 500 500 1 14]"
    "a_size (rock 100 100 3 42) = 3"
    by (simp_all add: game_with_def rock_def)
  obtain gm1 g1 new where 1:
    "handle_collisions ?G (\<lambda>n. 0, 0) = Inr (gm1, g1)"
    "score gm1 = score ?G
       + sum_list (map (\<lambda>a. 10 * a_size a) (filter (is_hit (bullets ?G)) (asteroids ?G)))"
    "asteroids gm1 = filter (\<lambda>a. \<not> is_hit (bullets ?G) a) (asteroids ?G) @ new"
    "map pos_size new = concat (map children_of (filter (is_hit (bullets ?G)) (asteroids ?G)))"
    "bullets gm1 = filter (\<lambda>b. \<not> b_life b \<le> 0) (mark_bullets (bullets ?G) (asteroids ?G))"
    using t asteroid_hit_outcome [of ?G "(\<lambda>n. 0, 0)"] by blast
  obtain gm2 g2 where 2:
    "HandleCollisions ?H (\<lambda>n. 0, 0) = (gm2, g2)"
    "score gm2 = score ?H
       + sum_list (map (\<lambda>a. 10 * a_size a) (filter (IsHit (bullets ?H)) (asteroids ?H)))"
    "bullets gm2 = MarkBullets (bullets ?H) (asteroids ?H)"
    using asteroid_hit_outcome [of ?H "(\<lambda>n. 0, 0)"] by blast
  have "score gm1 = 30" "asteroids gm1 = rock 500 500 1 14 # new"
    "map pos_size new = [(\<lparr>v_x = 100, v_y = 100\<rparr>, 2), (\<lparr>v_x = 100, v_y = 100\<rparr>, 2)]"
    "bullets gm1 = []"
    using 1(2-5) unfolding s h m by (simp_all add: c s(7))
  moreover have "score gm2 = 30" "bullets gm2 = [(shot 100 100)\<lparr>b_life := 0\<rparr>]"
    using 2(2-3) unfolding s IsHit_eq MarkBullets_eq h m by (simp_all add: s(7))
  ultimately show ?thesis
    using 1(1) 2(1) by simp
qed


lemma mark_bullets_single:
  assumes "as \<noteq> []" "\<forall>a \<in> set as. bullet_overlaps a b"
  shows "mark_bullets [b] as = [b\<lparr>b_life := 0\<rparr>]"
proof -
  obtain a where "a \<in> set as"
    using assms(1) by (cases as) auto
  then have "\<exists>a \<in> set as. destroys [b] a 0"
    using assms(2) by (auto simp add: destroys_def)
  then show ?thesis
    by (simp add: mark_bullets_def marked_def list_ex_iff)
qed

lemma filter_all_hit:
  assumes "\<forall>a \<in> set as. bullet_overlaps a b"
  shows "filter (is_hit [b]) as = as" "filter (\<lambda>a. \<not> is_hit [b] a) as = []"
  using assms by (simp_all add: is_hit_def)

text \<open>
  C10.  The overlap test of the bullet pass does not read the life of a bullet.  So when
  the game has a single bullet and it overlaps every asteroid of the list (two or more of
  them, for instance), collision resolution awards the points of every one of them,
  keeps none of them and leaves only their children; the bullet ends with life 0, and
  \<^verbatim>\<open>main.cpp\<close> erases it.  Both variants; in \<^verbatim>\<open>main.cpp\<close> the tiers are taken to be
  1, 2 or 3.
\<close>

theorem one_bullet_many_asteroids:
  "(bullets gm = [b] \<and> asteroids gm \<noteq> []
      \<and> (\<forall>a \<in> set (asteroids gm). bullet_overlaps a b \<and> tier_ok a)
     \<longrightarrow> (\<exists>gm1 g1.
           handle_collisions gm g = Inr (gm1, g1)
           \<and> score gm1 = score gm + sum_list (map (\<lambda>a. 10 * a_size a) (asteroids gm))
           \<and> map pos_size (asteroids gm1) = concat (map children_of (asteroids gm))
           \<and> bullets gm1 = []))
   \<and> (bullets gm = [b] \<and> asteroids gm \<noteq> []
      \<and> (\<forall>a \<in> set (asteroids gm). BulletOverlaps a b)
     \<longrightarrow> (\<exists>gm2 g2.
           HandleCollisions gm g = (gm2, g2)
           \<and> score gm2 = score gm + sum_list (map (\<lambda>a. 10 * a_size a) (asteroids gm))
           \<and> map pos_size (asteroids gm2) = concat (map children_of (asteroids gm))
           \<and> bullets gm2 = [b\<lparr>b_life := 0\<rparr>]))"
proof (intro conjI impI)
  assume h: "bullets gm = [b] \<and> asteroids gm \<noteq> []
    \<and> (\<forall>a \<in> set (asteroids gm). bullet_overlaps a b \<and> tier_ok a)"
  then have all: "\<forall>a \<in> set (asteroids gm). bullet_overlaps a b"
    and tiers: "\<forall>a \<in> set (asteroids gm). tier_ok a"
    by simp_all
  obtain new g1 where r:
    "handle_collisions gm g =
       Inr (player_vs_asteroids
              (gm\<lparr>score := score gm
                    + sum_list (map (\<lambda>a. 10 * a_size a)
                        (filter (is_hit (bullets gm)) (asteroids gm))),
                  asteroids := filter (\<lambda>a. \<not> is_hit (bullets gm) a) (asteroids gm) @ new,
                  bullets := filter (\<lambda>b. \<not> b_life b \<le> 0)
                                (mark_bullets (bullets gm) (asteroids gm))\<rparr>),
            g1)"
    "map pos_size new = concat (map children_of (filter (is_hit (bullets gm)) (asteroids gm)))"
    using handle_collisions_run [OF tiers, of g] by blast
  show "\<exists>gm1 g1.
           handle_collisions gm g = Inr (gm1, g1)
           \<and> score gm1 = score gm + sum_list (map (\<lambda>a. 10 * a_size a) (asteroids gm))
           \<and> map pos_size (asteroids gm1) = concat (map children_of (asteroids gm))
           \<and> bullets gm1 = []"
    unfolding r(1) using r(2) h
    by (simp add: player_vs_asteroids_keeps filter_all_hit [OF all] mark_bullets_single [OF _ all])
next
  assume h: "bullets gm = [b] \<and> asteroids gm \<noteq> []
    \<and> (\<forall>a \<in> set (asteroids gm). BulletOverlaps a b)"
  then have all: "\<forall>a \<in> set (asteroids gm). bullet_overlaps a b"
    by (simp add: BulletOverlaps_eq)
  obtain css g2 where r:
    "HandleCollisions gm g =
       (player_vs_asteroids
          (gm\<lparr>bullets := mark_bullets (bullets gm) (asteroids gm),
              score := score gm
                + sum_list (map (\<lambda>a. 10 * a_size a)
                    (filter (is_hit (bullets gm)) (asteroids gm))),
              asteroids := concat css\<rparr>),
        g2)"
    "list_all2 (\<lambda>a cs. if is_hit (bullets gm) a then map pos_size cs = children_of a
                       else cs = [a]) (asteroids gm) css"
    using HandleCollisions_run [of gm g] by blast
  have "list_all2 (\<lambda>a cs. map pos_size cs = children_of a) (asteroids gm) css"
    using r(2) h all by (simp add: list_all2_conv_all_nth is_hit_def)
  then have "map pos_size (concat css) = concat (map children_of (asteroids gm))"
    by (induction rule: list_all2_induct) simp_all
  then show "\<exists>gm2 g2.
           HandleCollisions gm g = (gm2, g2)
           \<and> score gm2 = score gm + sum_list (map (\<lambda>a. 10 * a_size a) (asteroids gm))
           \<and> map pos_size (asteroids gm2) = concat (map children_of (asteroids gm))
           \<and> bullets gm2 = [b\<lparr>b_life := 0\<rparr>]"
    unfolding r(1) using h
    by (simp add: player_vs_asteroids_keeps filter_all_hit [OF all] mark_bullets_single [OF _ all])
qed

theorem one_bullet_many_asteroids_witness:
  "(\<exists>gm1 g1.
      handle_collisions
        (game_with Player_new [shot 100 100] [rock 100 100 3 42, rock 110 100 2 26] 3)
        (\<lambda>n. 0, 0) = Inr (gm1, g1)
      \<and> score gm1 = 50
      \<and> map pos_size (asteroids gm1)
          = [(\<lparr>v_x = 100, v_y = 100\<rparr>, 2), (\<lparr>v_x = 100, v_y = 100\<rparr>, 2),
             (\<lparr>v_x = 110, v_y = 100\<rparr>, 1), (\<lparr>v_x = 110, v_y = 100\<rparr>, 1)]
      \<and> bullets gm1 = [])
   \<and> (\<exists>gm2 g2.
      HandleCollisions
        (game_with Player_ctor [shot 100 100] [rock 100 100 3 42, rock 110 100 2 26] 3)
        (\<lambda>n. 0, 0) = (gm2, g2)
      \<and> score gm2 = 50
      \<and> map pos_size (asteroids gm2)
          = [(\<lparr>v_x = 100, v_y = 100\<rparr>, 2), (\<lparr>v_x = 100, v_y = 100\<rparr>, 2),
             (\<lparr>v_x = 110, v_y = 100\<rparr>, 1), (\<lparr>v_x = 110, v_y = 100\<rparr>, 1)]
      \<and> bullets gm2 = [(shot 100 100)\<lparr>b_life := 0\<rparr>])"
proof -
  let ?as = "[rock 100 100 3 42, rock 110 100 2 26]"
  let ?G = "game_with Player_new [shot 100 100] ?as 3"
  let ?H = "game_with Player_ctor [shot 100 100] ?as 3"
  have s: "score ?G = 0" "bullets ?G = [shot 100 100]" "asteroids ?G = ?as"
    "score ?H = 0" "bullets ?H = [shot 100 100]" "asteroids ?H = ?as"
    by (simp_all add: game_with_def)
  have o: "\<forall>a \<in> set ?as. bullet_overlaps a (shot 100 100) \<and> tier_ok a"
    "\<forall>a \<in> set ?as. BulletOverlaps a (shot 100 100)"
    by (simp_all add: sample_defs overlap_defs tier_ok_def)
  have c: "sum_list (map (\<lambda>a. 10 * a_size a) ?as) = 50"
    "concat (map children_of ?as)
      = [(\<lparr>v_x = 100, v_y = 100\<rparr>, 2), (\<lparr>v_x = 100, v_y = 100\<rparr>, 2),
         (\<lparr>v_x = 110, v_y = 100\<rparr>, 1), (\<lparr>v_x = 110, v_y = 100\<rparr>, 1)]"
    by (simp_all add: children_of_def rock_def)
  show ?thesis
    using o one_bullet_many_asteroids [of ?G "shot 100 100" "(\<lambda>n. 0, 0)"]
      one_bullet_many_asteroids [of ?H "shot 100 100" "(\<lambda>n. 0, 0)"]
    unfolding s c by simp
qed


subsection \<open>The player in the frame\<close>

lemma Asteroid_draw_no_triangle: "\<not> list_ex is_player_triangle (Asteroid_draw a)"
  by (simp add: Asteroid_draw_def list_ex_iff Let_def)

lemma Asteroid_Draw_no_triangle: "\<not> list_ex is_player_triangle (Asteroid_Draw a)"
  by (simp add: Asteroid_Draw_def list_ex_iff)

lemma player_drawn_iff:
  "player_drawn (draw M gm) \<longleftrightarrow> \<not> game_over gm \<or> 0 < p_invuln (player gm)"
  "player_drawn (Draw M gm) \<longleftrightarrow> \<not> game_over gm \<or> 0 < p_invuln (player gm)"
proof -
  have a: "\<not> list_ex is_player_triangle (concat (map Asteroid_draw as))" for as
    using Asteroid_draw_no_triangle by (induction as) simp_all
  have b: "\<not> list_ex is_player_triangle (concat (map Asteroid_Draw as))" for as
    using Asteroid_Draw_no_triangle by (induction as) simp_all
  have c: "\<not> list_ex is_player_triangle (map Bullet_draw bs)"
    "\<not> list_ex is_player_triangle (map Bullet_Draw bs)" for bs
    by (induction bs) (simp_all add: Bullet_draw_def Bullet_Draw_def)
  show "player_drawn (draw M gm) \<longleftrightarrow> \<not> game_over gm \<or> 0 < p_invuln (player gm)"
    using a [of "asteroids gm"] c(1) [of "bullets gm"]
    by (simp add: player_drawn_def draw_def Player_draw_def Let_def)
  show "player_drawn (Draw M gm) \<longleftrightarrow> \<not> game_over gm \<or> 0 < p_invuln (player gm)"
    using b [of "asteroids gm"] c(2) [of "bullets gm"]
    by (simp add: player_drawn_def Draw_def Player_Draw_def Let_def)
qed

text \<open>
  C9, as stated, fails: \<^verbatim>\<open>draw\<close> tests \<^verbatim>\<open>!game_over || player.invuln > 0\<close>, and the
  player pass resets the player (timer 2) before it sets the game-over flag.  The state
  the pass returns when the last life is lost is game over with the timer at 2, and its
  frame has the player's triangle.
\<close>

theorem game_over_draw_counterexample:
  "lives (player_vs_asteroids (game_with Player_new [] [rock 450 325 3 42] 1)) = 0
   \<and> game_over (player_vs_asteroids (game_with Player_new [] [rock 450 325 3 42] 1))
   \<and> player_drawn
       (draw text_width0 (player_vs_asteroids (game_with Player_new [] [rock 450 325 3 42] 1)))
   \<and> game_over (PlayerVsAsteroids
        (game_with (Player_ctor\<lparr>p_invuln := 0\<rparr>) [] [rock 450 325 3 42] 1))
   \<and> player_drawn
       (Draw text_width0 (PlayerVsAsteroids
          (game_with (Player_ctor\<lparr>p_invuln := 0\<rparr>) [] [rock 450 325 3 42] 1)))"
  by (simp add: player_drawn_iff PlayerVsAsteroids_eq player_vs_asteroids_def sample_defs
      circle_collision_def SHIP_RADIUS_def Player_reset_def Let_def)

text \<open>
  C9, amended.  In a state with the game-over flag set, the frame has the player's
  triangle exactly when the invulnerability timer is above 0: the player is suppressed
  when the game is over and the timer is at or below 0.  Both variants.
\<close>

theorem game_over_draw:
  "game_over gm \<longrightarrow>
     (player_drawn (draw M gm) \<longleftrightarrow> 0 < p_invuln (player gm))
     \<and> (player_drawn (Draw M gm) \<longleftrightarrow> 0 < p_invuln (player gm))"
  by (simp add: player_drawn_iff)

theorem game_over_draw_witness:
  "\<not> player_drawn (draw text_width0
        ((game_with (Player_new\<lparr>p_invuln := - 1\<rparr>) [] [] 0)\<lparr>game_over := True\<rparr>))
   \<and> \<not> player_drawn (Draw text_width0
        ((game_with (Player_new\<lparr>p_invuln := - 1\<rparr>) [] [] 0)\<lparr>game_over := True\<rparr>))
   \<and> player_drawn (draw text_width0
        ((game_with (Player_new\<lparr>p_invuln := 2\<rparr>) [] [] 0)\<lparr>game_over := True\<rparr>))"
  using game_over_draw [of "(game_with (Player_new\<lparr>p_invuln := - 1\<rparr>) [] [] 0)\<lparr>game_over := True\<rparr>"
      text_width0]
    game_over_draw [of "(game_with (Player_new\<lparr>p_invuln := 2\<rparr>) [] [] 0)\<lparr>game_over := True\<rparr>"
      text_width0]
  by (simp add: game_with_def)


subsection \<open>Spawning a wave\<close>

lemma clear_distance:
  "\<not> circle_collision p 80 q 120 \<longleftrightarrow> 200 < vec_len (vec_sub p q)"
proof -
  have "200 < sqrt x \<longleftrightarrow> 200 * 200 < x" for x :: real
    using real_sqrt_less_iff [of "200 * 200" x] by simp
  then show ?thesis
    by (simp add: circle_collision_def vec_len_def vec_sub_def Let_def not_le)
qed

lemma place_asteroid_step:
  "place_asteroid ppos (f, i) =
     (if clear_at f ppos i
      then Some (\<lparr>v_x = f i * real_of_int SCREEN_WIDTH,
                  v_y = f (i + 1) * real_of_int SCREEN_HEIGHT\<rparr>, (f, i + 2))
      else place_asteroid ppos (f, i + 2))"
  by (subst place_asteroid.simps)
    (simp add: uniform_real_def next_unit_def clear_at_def Let_def add.assoc)

lemma place_asteroid_finds:
  "clear_at f ppos (i + 2 * k) \<Longrightarrow>
   \<exists>pos j. place_asteroid ppos (f, i) = Some (pos, (f, j)) \<and> \<not> circle_collision pos 80 ppos 120"
proof (induction k arbitrary: i)
  case 0
  then show ?case
    by (subst place_asteroid_step) (simp add: clear_at_def)
next
  case (Suc k)
  show ?case
  proof (cases "clear_at f ppos i")
    case True
    then show ?thesis
      by (subst place_asteroid_step) (simp add: clear_at_def)
  next
    case False
    have "clear_at f ppos (i + 2 + 2 * k)"
      using Suc.prems by (simp add: algebra_simps)
    then obtain pos j where
      "place_asteroid ppos (f, i + 2) = Some (pos, (f, j))" "\<not> circle_collision pos 80 ppos 120"
      using Suc.IH [of "i + 2"] by blast
    then show ?thesis
      using False by (subst place_asteroid_step) simp
  qed
qed

lemma PlaceAsteroid_step:
  "PlaceAsteroid ppos (f, i) =
     (if clear_at f ppos i
      then Some (\<lparr>v_x = f i * real_of_int SCREEN_WIDTH,
                  v_y = f (i + 1) * real_of_int SCREEN_HEIGHT\<rparr>, (f, i + 2))
      else PlaceAsteroid ppos (f, i + 2))"
  by (subst PlaceAsteroid.simps)
    (simp add: RandomRange_def next_unit_def clear_at_def CircleCollision_eq Let_def add.assoc)

lemma PlaceAsteroid_finds:
  "clear_at f ppos (i + 2 * k) \<Longrightarrow>
   \<exists>pos j. PlaceAsteroid ppos (f, i) = Some (pos, (f, j)) \<and> \<not> circle_collision pos 80 ppos 120"
proof (induction k arbitrary: i)
  case 0
  then show ?case
    by (subst PlaceAsteroid_step) (simp add: clear_at_def)
next
  case (Suc k)
  show ?case
  proof (cases "clear_at f ppos i")
    case True
    then show ?thesis
      by (subst PlaceAsteroid_step) (simp add: clear_at_def)
  next
    case False
    have "clear_at f ppos (i + 2 + 2 * k)"
      using Suc.prems by (simp add: algebra_simps)
    then obtain pos j where
      "PlaceAsteroid ppos (f, i + 2) = Some (pos, (f, j))" "\<not> circle_collision pos 80 ppos 120"
      using Suc.IH [of "i + 2"] by blast
    then show ?thesis
      using False by (subst PlaceAsteroid_step) simp
  qed
qed

text \<open>A Large asteroid, clear of the position \<open>ppos\<close>.\<close>

lemma spawn_asteroids_run:
  assumes "\<forall>i. \<exists>k. clear_at f ppos (i + 2 * k)"
  shows "\<exists>as j. spawn_asteroids n ppos acc (f, i) = Some (Inr (acc @ as, (f, j)))
     \<and> length as = n
     \<and> (\<forall>a \<in> set as. a_size a = 3 \<and> a_radius a = 42
           \<and> 200 < vec_len (vec_sub (a_pos a) ppos))"
proof (induction n arbitrary: acc i)
  case 0
  then show ?case by simp
next
  case (Suc n)
  obtain k where "clear_at f ppos (i + 2 * k)"
    using assms by blast
  then obtain pos j where p:
    "place_asteroid ppos (f, i) = Some (pos, (f, j))" "\<not> circle_collision pos 80 ppos 120"
    using place_asteroid_finds by blast
  obtain a g1 where a: "new_Asteroid pos 3 (f, j) = Inr (a, g1)"
    "a_pos a = pos" "a_size a = 3" "a_radius a = 42" "fst g1 = f"
    using new_Asteroid_tier [of 3 pos "(f, j)"] by auto
  obtain j1 where g1: "g1 = (f, j1)"
    using a(5) by (cases g1) simp
  obtain as j2 where r:
    "spawn_asteroids n ppos (acc @ [a]) (f, j1) = Some (Inr ((acc @ [a]) @ as, (f, j2)))"
    "length as = n"
    "\<forall>a \<in> set as. a_size a = 3 \<and> a_radius a = 42 \<and> 200 < vec_len (vec_sub (a_pos a) ppos)"
    using Suc.IH [of "acc @ [a]" j1] by blast
  have "spawn_asteroids (Suc n) ppos acc (f, i) = Some (Inr (acc @ (a # as), (f, j2)))"
    using p(1) a(1) r(1) by (simp add: g1)
  moreover have "length (a # as) = Suc n"
    using r(2) by simp
  moreover have "\<forall>a \<in> set (a # as). a_size a = 3 \<and> a_radius a = 42
      \<and> 200 < vec_len (vec_sub (a_pos a) ppos)"
    using a(2-4) p(2) r(3) by (simp add: clear_distance)
  ultimately show ?case
    by blast
qed

lemma SpawnAsteroids_run:
  assumes "\<forall>i. \<exists>k. clear_at f ppos (i + 2 * k)"
  shows "\<exists>as j. SpawnAsteroids n ppos acc (f, i) = Some (acc @ as, (f, j))
     \<and> length as = n
     \<and> (\<forall>a \<in> set as. a_size a = 3 \<and> a_radius a = 42
           \<and> 200 < vec_len (vec_sub (a_pos a) ppos))"
proof (induction n arbitrary: acc i)
  case 0
  then show ?case by simp
next
  case (Suc n)
  obtain k where "clear_at f ppos (i + 2 * k)"
    using assms by blast
  then obtain pos j where p:
    "PlaceAsteroid ppos (f, i) = Some (pos, (f, j))" "\<not> circle_collision pos 80 ppos 120"
    using PlaceAsteroid_finds by blast
  obtain a g1 where a: "Asteroid_ctor pos 3 (f, j) = (a, g1)"
    by (cases "Asteroid_ctor pos 3 (f, j)")
  note fa = Asteroid_ctor_fields [OF a]
  obtain j1 where g1: "g1 = (f, j1)"
    using fa by (cases g1) simp
  obtain as j2 where r:
    "SpawnAsteroids n ppos (acc @ [a]) (f, j1) = Some ((acc @ [a]) @ as, (f, j2))"
    "length as = n"
    "\<forall>a \<in> set as. a_size a = 3 \<and> a_radius a = 42 \<and> 200 < vec_len (vec_sub (a_pos a) ppos)"
    using Suc.IH [of "acc @ [a]" j1] by blast
  have "SpawnAsteroids (Suc n) ppos acc (f, i) = Some (acc @ (a # as), (f, j2))"
    using p(1) a r(1) by (simp add: g1)
  moreover have "length (a # as) = Suc n"
    using r(2) by simp
  moreover have "\<forall>a \<in> set (a # as). a_size a = 3 \<and> a_radius a = 42
      \<and> 200 < vec_len (vec_sub (a_pos a) ppos)"
    using fa p(2) r(3) by (simp add: clear_distance)
  ultimately show ?case
    by blast
qed

lemma spawn_wave_run:
  assumes "\<forall>i. \<exists>k. clear_at (fst g) (p_pos (player gm)) (i + 2 * k)" "0 \<le> 3 + n"
  shows "\<exists>as g1. spawn_wave n gm g = Some (Inr (gm\<lparr>asteroids := as\<rparr>, g1))
     \<and> int (length as) = 3 + n \<and> fst g1 = fst g
     \<and> (\<forall>a \<in> set as. a_size a = 3 \<and> a_radius a = 42
           \<and> 200 < vec_len (vec_sub (a_pos a) (p_pos (player gm))))"
proof -
  obtain as j where r:
    "spawn_asteroids (nat (3 + n)) (p_pos (player gm)) [] (fst g, snd g)
       = Some (Inr ([] @ as, (fst g, j)))"
    "length as = nat (3 + n)"
    "\<forall>a \<in> set as. a_size a = 3 \<and> a_radius a = 42
       \<and> 200 < vec_len (vec_sub (a_pos a) (p_pos (player gm)))"
    using spawn_asteroids_run [OF assms(1), of "nat (3 + n)" "[]" "snd g"] by blast
  have "spawn_wave n gm g = Some (Inr (gm\<lparr>asteroids := as\<rparr>, (fst g, j)))"
    using r(1) by (simp add: spawn_wave_def)
  moreover have "int (length as) = 3 + n"
    using r(2) assms(2) by simp
  ultimately show ?thesis
    using r(3) by (intro exI [of _ as] exI [of _ "(fst g, j)"]) simp
qed

lemma SpawnWave_run:
  assumes "\<forall>i. \<exists>k. clear_at (fst g) (p_pos (player gm)) (i + 2 * k)" "0 \<le> 3 + wave gm"
  shows "\<exists>as g1. SpawnWave gm g = Some (gm\<lparr>asteroids := as\<rparr>, g1)
     \<and> int (length as) = 3 + wave gm \<and> fst g1 = fst g
     \<and> (\<forall>a \<in> set as. a_size a = 3 \<and> a_radius a = 42
           \<and> 200 < vec_len (vec_sub (a_pos a) (p_pos (player gm))))"
proof -
  obtain as j where r:
    "SpawnAsteroids (nat (3 + wave gm)) (p_pos (player gm)) [] (fst g, snd g)
       = Some ([] @ as, (fst g, j))"
    "length as = nat (3 + wave gm)"
    "\<forall>a \<in> set as. a_size a = 3 \<and> a_radius a = 42
       \<and> 200 < vec_len (vec_sub (a_pos a) (p_pos (player gm)))"
    using SpawnAsteroids_run [OF assms(1), of "nat (3 + wave gm)" "[]" "snd g"] by blast
  have "SpawnWave gm g = Some (gm\<lparr>asteroids := as\<rparr>, (fst g, j))"
    using r(1) by (simp add: SpawnWave_def)
  moreover have "int (length as) = 3 + wave gm"
    using r(2) assms(2) by simp
  ultimately show ?thesis
    using r(3) by (intro exI [of _ as] exI [of _ "(fst g, j)"]) simp
qed


subsection \<open>What an update keeps\<close>

lemma update_fire_keeps:
  "score (update_fire inp gm) = score gm \<and> lives (update_fire inp gm) = lives gm
   \<and> wave (update_fire inp gm) = wave gm \<and> game_over (update_fire inp gm) = game_over gm
   \<and> asteroids (update_fire inp gm) = asteroids gm"
  by (simp add: update_fire_def split: prod.splits option.splits)

lemma Update_fire_keeps:
  "score (Update_fire inp gm) = score gm \<and> lives (Update_fire inp gm) = lives gm
   \<and> wave (Update_fire inp gm) = wave gm \<and> game_over (Update_fire inp gm) = game_over gm
   \<and> asteroids (Update_fire inp gm) = asteroids gm"
  by (simp add: Update_fire_def Let_def split: prod.splits)

lemma update_entities_keeps:
  "score (update_entities inp dt gm) = score gm \<and> lives (update_entities inp dt gm) = lives gm
   \<and> wave (update_entities inp dt gm) = wave gm
   \<and> game_over (update_entities inp dt gm) = game_over gm
   \<and> asteroids (update_entities inp dt gm) = map (Asteroid_update dt) (asteroids gm)"
  by (simp add: update_entities_def Let_def update_fire_keeps)

lemma Update_entities_keeps:
  "score (Update_entities inp dt gm) = score gm \<and> lives (Update_entities inp dt gm) = lives gm
   \<and> wave (Update_entities inp dt gm) = wave gm
   \<and> game_over (Update_entities inp dt gm) = game_over gm
   \<and> asteroids (Update_entities inp dt gm) = map (Asteroid_Update dt) (asteroids gm)"
  by (simp add: Update_entities_def Let_def Update_fire_keeps)








subsection \<open>Claims about waves and restart\<close>















subsection \<open>The counters along a run\<close>

lemma spawn_asteroids_result:
  "spawn_asteroids n ppos acc g = Some (Inr (as, g1)) \<Longrightarrow>
   \<exists>new. as = acc @ new \<and> length new = n \<and> (\<forall>a \<in> set new. a_size a = 3)"
proof (induction n arbitrary: acc g)
  case 0
  then show ?case by simp
next
  case (Suc n)
  then obtain pos g2 a g3 where s: "place_asteroid ppos g = Some (pos, g2)"
    "new_Asteroid pos 3 g2 = Inr (a, g3)"
    "spawn_asteroids n ppos (acc @ [a]) g3 = Some (Inr (as, g1))"
    by (auto split: option.splits sum.splits)
  have "a_size a = 3"
    using new_Asteroid_tier [of 3 pos g2] s(2) by auto
  moreover obtain new where "as = (acc @ [a]) @ new" "length new = n" "\<forall>a \<in> set new. a_size a = 3"
    using Suc.IH [OF s(3)] by blast
  ultimately show ?case
    by (intro exI [of _ "a # new"]) simp
qed

lemma spawn_wave_result:
  "spawn_wave n gm g = Some (Inr (gm1, g1)) \<Longrightarrow>
   \<exists>as. gm1 = gm\<lparr>asteroids := as\<rparr> \<and> (\<forall>a \<in> set as. a_size a = 3)"
  by (auto simp add: spawn_wave_def Let_def split: option.splits sum.splits
      dest!: spawn_asteroids_result)

lemma SpawnAsteroids_result:
  "SpawnAsteroids n ppos acc g = Some (as, g1) \<Longrightarrow>
   \<exists>new. as = acc @ new \<and> length new = n \<and> (\<forall>a \<in> set new. a_size a = 3)"
proof (induction n arbitrary: acc g)
  case 0
  then show ?case by simp
next
  case (Suc n)
  then obtain pos g2 a g3 where s: "PlaceAsteroid ppos g = Some (pos, g2)"
    "Asteroid_ctor pos 3 g2 = (a, g3)"
    "SpawnAsteroids n ppos (acc @ [a]) g3 = Some (as, g1)"
    by (auto split: option.splits prod.splits)
  have "a_size a = 3"
    using Asteroid_ctor_fields [OF s(2)] by simp
  moreover obtain new where "as = (acc @ [a]) @ new" "length new = n" "\<forall>a \<in> set new. a_size a = 3"
    using Suc.IH [OF s(3)] by blast
  ultimately show ?case
    by (intro exI [of _ "a # new"]) simp
qed

lemma SpawnWave_result:
  "SpawnWave gm g = Some (gm1, g1) \<Longrightarrow>
   \<exists>as. gm1 = gm\<lparr>asteroids := as\<rparr> \<and> (\<forall>a \<in> set as. a_size a = 3)"
  by (auto simp add: SpawnWave_def Let_def split: option.splits dest!: SpawnAsteroids_result)

lemma tier_ok_children:
  assumes "tier_ok a" "map pos_size cs = children_of a" "c \<in> set cs"
  shows "tier_ok c"
proof -
  have "pos_size c \<in> set (children_of a)"
    using assms(2-3) by (metis image_eqI set_map)
  then show ?thesis
    using assms(1) by (auto simp add: children_of_def pos_size_def tier_ok_def split: if_splits)
qed

lemma tier_ok_replaced:
  assumes "list_all2 (\<lambda>a cs. if hit a then map pos_size cs = children_of a else cs = [a]) as css"
    "\<forall>a \<in> set as. tier_ok a"
  shows "\<forall>c \<in> set (concat css). tier_ok c"
  using assms
proof (induction rule: list_all2_induct)
  case Nil
  then show ?case by simp
next
  case (Cons a as cs css)
  have "\<forall>c \<in> set cs. tier_ok c"
    using Cons.hyps(1) Cons.prems tier_ok_children [of a cs] by (auto split: if_splits)
  moreover have "\<forall>c \<in> set (concat css). tier_ok c"
    using Cons.IH Cons.prems by simp
  ultimately show ?case
    by auto
qed

lemma sum_hits_nonneg:
  assumes "\<forall>a \<in> set as. tier_ok a"
  shows "0 \<le> sum_list (map (\<lambda>a. 10 * a_size a) (filter hit as))"
proof (rule sum_list_nonneg)
  fix x
  assume "x \<in> set (map (\<lambda>a. 10 * a_size a) (filter hit as))"
  then show "0 \<le> x"
    using assms by (auto simp add: tier_ok_def)
qed


lemma counters_ok_iff:
  "counters_ok gm \<longleftrightarrow>
     (\<forall>a \<in> set (asteroids gm). tier_ok a) \<and> 1 \<le> wave gm \<and> 0 \<le> score gm
     \<and> 0 \<le> lives gm \<and> lives gm \<le> 3 \<and> (game_over gm \<longleftrightarrow> lives gm \<le> 0)"
  by (simp add: counters_ok_def list_all_iff)

lemma tier_ok_Large: "a_size a = 3 \<Longrightarrow> tier_ok a"
  by (simp add: tier_ok_def)

lemma player_vs_asteroids_counters:
  assumes "counters_ok gm" "\<not> game_over gm"
  shows "counters_ok (player_vs_asteroids gm) \<and> lives (player_vs_asteroids gm) \<le> lives gm"
  using assms player_vs_asteroids_cases [of gm] by (auto simp add: counters_ok_iff)

lemma update_entities_counters:
  "counters_ok gm \<Longrightarrow> counters_ok (update_entities inp dt gm)"
  by (simp add: counters_ok_iff update_entities_keeps Asteroid_update_def tier_ok_def Let_def)

lemma Update_entities_counters:
  "counters_ok gm \<Longrightarrow> counters_ok (Update_entities inp dt gm)"
  by (simp add: counters_ok_iff Update_entities_keeps Asteroid_Update_def tier_ok_def Let_def)

lemma handle_collisions_counters:
  assumes "counters_ok gm" "\<not> game_over gm" "handle_collisions gm g = Inr (gm1, g1)"
  shows "counters_ok gm1 \<and> wave gm1 = wave gm \<and> score gm \<le> score gm1 \<and> lives gm1 \<le> lives gm"
proof -
  have tiers: "\<forall>a \<in> set (asteroids gm). tier_ok a"
    using assms(1) by (simp add: counters_ok_iff)
  define sc where
    "sc = score gm + sum_list (map (\<lambda>a. 10 * a_size a) (filter (is_hit (bullets gm)) (asteroids gm)))"
  obtain new g2 where r:
    "handle_collisions gm g =
       Inr (player_vs_asteroids
              (gm\<lparr>score := sc,
                  asteroids := filter (\<lambda>a. \<not> is_hit (bullets gm) a) (asteroids gm) @ new,
                  bullets := filter (\<lambda>b. \<not> b_life b \<le> 0)
                                (mark_bullets (bullets gm) (asteroids gm))\<rparr>),
            g2)"
    "\<forall>c \<in> set new. tier_ok c"
    using handle_collisions_run [OF tiers, of g] unfolding sc_def by blast
  define X where
    "X = gm\<lparr>score := sc,
            asteroids := filter (\<lambda>a. \<not> is_hit (bullets gm) a) (asteroids gm) @ new,
            bullets := filter (\<lambda>b. \<not> b_life b \<le> 0) (mark_bullets (bullets gm) (asteroids gm))\<rparr>"
  have gm1: "gm1 = player_vs_asteroids X"
    using assms(3) r(1) unfolding X_def by simp
  have "score gm \<le> sc"
    unfolding sc_def using sum_hits_nonneg [OF tiers, of "is_hit (bullets gm)"] by simp
  then have X: "counters_ok X" "\<not> game_over X" "score gm \<le> score X" "wave X = wave gm"
    "lives X = lives gm"
    using assms(1-2) tiers r(2) by (auto simp add: X_def counters_ok_iff)
  show ?thesis
    using player_vs_asteroids_counters [OF X(1-2)] X(3-5)
    by (simp add: gm1 player_vs_asteroids_keeps)
qed

lemma HandleCollisions_counters:
  assumes "counters_ok gm" "\<not> game_over gm" "HandleCollisions gm g = (gm1, g1)"
  shows "counters_ok gm1 \<and> wave gm1 = wave gm \<and> score gm \<le> score gm1 \<and> lives gm1 \<le> lives gm"
proof -
  have tiers: "\<forall>a \<in> set (asteroids gm). tier_ok a"
    using assms(1) by (simp add: counters_ok_iff)
  define sc where
    "sc = score gm + sum_list (map (\<lambda>a. 10 * a_size a) (filter (is_hit (bullets gm)) (asteroids gm)))"
  obtain css g2 where r:
    "HandleCollisions gm g =
       (player_vs_asteroids
          (gm\<lparr>bullets := mark_bullets (bullets gm) (asteroids gm), score := sc,
              asteroids := concat css\<rparr>),
        g2)"
    "list_all2 (\<lambda>a cs. if is_hit (bullets gm) a then map pos_size cs = children_of a
                       else cs = [a]) (asteroids gm) css"
    using HandleCollisions_run [of gm g] unfolding sc_def by blast
  define X where
    "X = gm\<lparr>bullets := mark_bullets (bullets gm) (asteroids gm), score := sc,
            asteroids := concat css\<rparr>"
  have gm1: "gm1 = player_vs_asteroids X"
    using assms(3) r(1) unfolding X_def by simp
  have "score gm \<le> sc"
    unfolding sc_def using sum_hits_nonneg [OF tiers, of "is_hit (bullets gm)"] by simp
  moreover have "\<forall>c \<in> set (concat css). tier_ok c"
    using tier_ok_replaced [OF r(2) tiers] .
  ultimately have X: "counters_ok X" "\<not> game_over X" "score gm \<le> score X" "wave X = wave gm"
    "lives X = lives gm"
    using assms(1-2) by (auto simp add: X_def counters_ok_iff)
  show ?thesis
    using player_vs_asteroids_counters [OF X(1-2)] X(3-5)
    by (simp add: gm1 player_vs_asteroids_keeps)
qed

text \<open>One update: the counters stay sound, and move one way unless the game restarts.\<close>

lemma update_step:
  assumes "counters_ok gm" "update inp dt gm g = Some (Inr (gm1, g1))"
  shows "counters_ok gm1"
    and "\<not> (game_over gm \<and> enter_pressed inp) \<Longrightarrow>
         wave gm \<le> wave gm1 \<and> score gm \<le> score gm1 \<and> lives gm1 \<le> lives gm"
    and "game_over gm \<and> enter_pressed inp \<Longrightarrow> wave gm1 = 1 \<and> score gm1 = 0 \<and> lives gm1 = 3"
proof -
  have "counters_ok gm1
    \<and> (\<not> (game_over gm \<and> enter_pressed inp) \<longrightarrow>
         wave gm \<le> wave gm1 \<and> score gm \<le> score gm1 \<and> lives gm1 \<le> lives gm)
    \<and> (game_over gm \<and> enter_pressed inp \<longrightarrow> wave gm1 = 1 \<and> score gm1 = 0 \<and> lives gm1 = 3)"
  proof (cases "game_over gm")
    case True
    show ?thesis
    proof (cases "enter_pressed inp")
      case True
      let ?r = "gm\<lparr>score := 0, lives := LIVES_START, wave := 1, game_over := False,
                   player := Player_reset (player gm), bullets := []\<rparr>"
      have "spawn_wave 1 ?r g = Some (Inr (gm1, g1))"
        using assms(2) \<open>game_over gm\<close> True by (simp add: update_def reset_def Let_def)
      then obtain as where "gm1 = ?r\<lparr>asteroids := as\<rparr>" "\<forall>a \<in> set as. a_size a = 3"
        using spawn_wave_result by blast
      then show ?thesis
        using \<open>game_over gm\<close> True by (simp add: counters_ok_iff tier_ok_Large LIVES_START_def)
    next
      case False
      then show ?thesis
        using assms \<open>game_over gm\<close> by (simp add: update_def)
    qed
  next
    case False
    then obtain gm6 g6 where hc: "handle_collisions (update_entities inp dt gm) g = Inr (gm6, g6)"
      using assms(2) by (cases "handle_collisions (update_entities inp dt gm) g")
        (auto simp add: update_def)
    have rest: "spawn_wave (wave gm6 + 1)
          (gm6\<lparr>wave := wave gm6 + 1, player := (player gm6)\<lparr>p_invuln := 2\<rparr>\<rparr>) g6
        = Some (Inr (gm1, g1))" if "asteroids gm6 = []"
      using assms(2) False hc that by (simp add: update_def Let_def)
    have same: "gm1 = gm6" if "asteroids gm6 \<noteq> []"
      using assms(2) False hc that by (simp add: update_def Let_def)
    have e: "counters_ok (update_entities inp dt gm)" "\<not> game_over (update_entities inp dt gm)"
      using assms(1) False by (simp_all add: update_entities_counters update_entities_keeps)
    have c6: "counters_ok gm6" "wave gm6 = wave gm" "score gm \<le> score gm6" "lives gm6 \<le> lives gm"
      using handle_collisions_counters [OF e hc] by (simp_all add: update_entities_keeps)
    show ?thesis
    proof (cases "asteroids gm6 = []")
      case True
      then obtain as where
        "gm1 = gm6\<lparr>wave := wave gm6 + 1, player := (player gm6)\<lparr>p_invuln := 2\<rparr>, asteroids := as\<rparr>"
        "\<forall>a \<in> set as. a_size a = 3"
        using rest spawn_wave_result by blast
      then show ?thesis
        using c6 False by (simp add: counters_ok_iff tier_ok_Large)
    next
      case nonempty: False
      then show ?thesis
        using same c6 False by simp
    qed
  qed
  then show "counters_ok gm1"
    and "\<not> (game_over gm \<and> enter_pressed inp) \<Longrightarrow>
         wave gm \<le> wave gm1 \<and> score gm \<le> score gm1 \<and> lives gm1 \<le> lives gm"
    and "game_over gm \<and> enter_pressed inp \<Longrightarrow> wave gm1 = 1 \<and> score gm1 = 0 \<and> lives gm1 = 3"
    by simp_all
qed


lemma Update_step:
  assumes "counters_ok gm" "Update inp dt gm g = Some (gm1, g1)"
  shows "counters_ok gm1"
    and "\<not> (game_over gm \<and> enter_pressed inp) \<Longrightarrow>
         wave gm \<le> wave gm1 \<and> score gm \<le> score gm1 \<and> lives gm1 \<le> lives gm"
    and "game_over gm \<and> enter_pressed inp \<Longrightarrow> wave gm1 = 1 \<and> score gm1 = 0 \<and> lives gm1 = 3"
proof -
  have "counters_ok gm1
    \<and> (\<not> (game_over gm \<and> enter_pressed inp) \<longrightarrow>
         wave gm \<le> wave gm1 \<and> score gm \<le> score gm1 \<and> lives gm1 \<le> lives gm)
    \<and> (game_over gm \<and> enter_pressed inp \<longrightarrow> wave gm1 = 1 \<and> score gm1 = 0 \<and> lives gm1 = 3)"
  proof (cases "game_over gm")
    case True
    show ?thesis
    proof (cases "enter_pressed inp")
      case True
      let ?r = "gm\<lparr>score := 0, lives := LIVES_START, wave := 1, game_over := False,
                   player := Player_Reset (player gm), bullets := []\<rparr>"
      have "SpawnWave ?r g = Some (gm1, g1)"
        using assms(2) \<open>game_over gm\<close> True by (simp add: Update_def Reset_def)
      then obtain as where "gm1 = ?r\<lparr>asteroids := as\<rparr>" "\<forall>a \<in> set as. a_size a = 3"
        using SpawnWave_result by blast
      then show ?thesis
        using \<open>game_over gm\<close> True by (simp add: counters_ok_iff tier_ok_Large LIVES_START_def)
    next
      case False
      then show ?thesis
        using assms \<open>game_over gm\<close> by (simp add: Update_def)
    qed
  next
    case False
    obtain gm6 g6 where hc: "HandleCollisions (Update_entities inp dt gm) g = (gm6, g6)"
      by (cases "HandleCollisions (Update_entities inp dt gm) g")
    have rest: "SpawnWave
          (gm6\<lparr>wave := wave gm6 + 1, player := (player gm6)\<lparr>p_invuln := 2\<rparr>\<rparr>) g6
        = Some (gm1, g1)" if "asteroids gm6 = []"
      using assms(2) False hc that by (simp add: Update_def Let_def)
    have same: "gm1 = gm6" if "asteroids gm6 \<noteq> []"
      using assms(2) False hc that by (simp add: Update_def Let_def)
    have e: "counters_ok (Update_entities inp dt gm)" "\<not> game_over (Update_entities inp dt gm)"
      using assms(1) False by (simp_all add: Update_entities_counters Update_entities_keeps)
    have c6: "counters_ok gm6" "wave gm6 = wave gm" "score gm \<le> score gm6" "lives gm6 \<le> lives gm"
      using HandleCollisions_counters [OF e hc] by (simp_all add: Update_entities_keeps)
    show ?thesis
    proof (cases "asteroids gm6 = []")
      case True
      then obtain as where
        "gm1 = gm6\<lparr>wave := wave gm6 + 1, player := (player gm6)\<lparr>p_invuln := 2\<rparr>, asteroids := as\<rparr>"
        "\<forall>a \<in> set as. a_size a = 3"
        using rest SpawnWave_result by blast
      then show ?thesis
        using c6 False by (simp add: counters_ok_iff tier_ok_Large)
    next
      case nonempty: False
      then show ?thesis
        using same c6 False by simp
    qed
  qed
  then show "counters_ok gm1"
    and "\<not> (game_over gm \<and> enter_pressed inp) \<Longrightarrow>
         wave gm \<le> wave gm1 \<and> score gm \<le> score gm1 \<and> lives gm1 \<le> lives gm"
    and "game_over gm \<and> enter_pressed inp \<Longrightarrow> wave gm1 = 1 \<and> score gm1 = 0 \<and> lives gm1 = 3"
    by simp_all
qed

lemma reachable_counters: "reachable s \<Longrightarrow> counters_ok (fst s)"
proof (induction rule: reachable.induct)
  case (reachable_new g s)
  then have "spawn_wave 1
      \<lparr>player = Player_new, bullets = [], asteroids = [], score = 0,
        lives = LIVES_START, wave = 1, game_over = False\<rparr> g = Some (Inr (fst s, snd s))"
    by (simp add: Game_new_def)
  then obtain as where
    "fst s = \<lparr>player = Player_new, bullets = [], asteroids = [], score = 0,
              lives = LIVES_START, wave = 1, game_over = False\<rparr>\<lparr>asteroids := as\<rparr>"
    "\<forall>a \<in> set as. a_size a = 3"
    using spawn_wave_result by blast
  then show ?case
    by (simp add: counters_ok_iff tier_ok_Large LIVES_START_def)
next
  case (reachable_update gm g dt inp s)
  then show ?case
    using update_step(1) [of gm inp dt g "fst s" "snd s"] by simp
qed

lemma Reachable_counters: "Reachable s \<Longrightarrow> counters_ok (fst s)"
proof (induction rule: Reachable.induct)
  case (Reachable_ctor g s)
  then have "SpawnWave
      \<lparr>player = Player_ctor, bullets = [], asteroids = [], score = 0,
        lives = LIVES_START, wave = 1, game_over = False\<rparr> g = Some (fst s, snd s)"
    by (simp add: Game_ctor_def)
  then obtain as where
    "fst s = \<lparr>player = Player_ctor, bullets = [], asteroids = [], score = 0,
              lives = LIVES_START, wave = 1, game_over = False\<rparr>\<lparr>asteroids := as\<rparr>"
    "\<forall>a \<in> set as. a_size a = 3"
    using SpawnWave_result by blast
  then show ?case
    by (simp add: counters_ok_iff tier_ok_Large LIVES_START_def)
next
  case (Reachable_Update gm g dt inp s)
  then show ?case
    using Update_step(1) [of gm inp dt g "fst s" "snd s"] by simp
qed

text \<open>
  C6, amended.  In every state a run reaches, the lives are not negative and are 0
  exactly when the game-over flag is set.  Every update of such a state that is not a
  restart (the flag set and the restart key pressed) returns a state whose wave number
  and score are not lower and whose lives are not higher.  A restart returns wave 1,
  score 0 and lives 3.  Both variants.
\<close>

theorem counters_monotone:
  "(reachable (gm, g) \<longrightarrow> 0 \<le> lives gm \<and> (lives gm = 0 \<longleftrightarrow> game_over gm))
   \<and> (reachable (gm, g) \<and> update inp dt gm g = Some (Inr (gm1, g1))
        \<and> \<not> (game_over gm \<and> enter_pressed inp)
      \<longrightarrow> wave gm \<le> wave gm1 \<and> score gm \<le> score gm1 \<and> lives gm1 \<le> lives gm)
   \<and> (reachable (gm, g) \<and> update inp dt gm g = Some (Inr (gm1, g1))
        \<and> game_over gm \<and> enter_pressed inp
      \<longrightarrow> wave gm1 = 1 \<and> score gm1 = 0 \<and> lives gm1 = 3)
   \<and> (Reachable (gm, g) \<longrightarrow> 0 \<le> lives gm \<and> (lives gm = 0 \<longleftrightarrow> game_over gm))
   \<and> (Reachable (gm, g) \<and> Update inp dt gm g = Some (gm2, g2)
        \<and> \<not> (game_over gm \<and> enter_pressed inp)
      \<longrightarrow> wave gm \<le> wave gm2 \<and> score gm \<le> score gm2 \<and> lives gm2 \<le> lives gm)
   \<and> (Reachable (gm, g) \<and> Update inp dt gm g = Some (gm2, g2)
        \<and> game_over gm \<and> enter_pressed inp
      \<longrightarrow> wave gm2 = 1 \<and> score gm2 = 0 \<and> lives gm2 = 3)"
proof -
  have a: "counters_ok gm" if "reachable (gm, g)"
    using reachable_counters [OF that] by simp
  have b: "counters_ok gm" if "Reachable (gm, g)"
    using Reachable_counters [OF that] by simp
  have c: "0 \<le> lives gm \<and> (lives gm = 0 \<longleftrightarrow> game_over gm)" if "counters_ok gm"
    using that by (auto simp add: counters_ok_iff)
  show ?thesis
    using a b c update_step(2,3) [of gm inp dt g gm1 g1] Update_step(2,3) [of gm inp dt g gm2 g2]
    by blast
qed


subsection \<open>The sample run\<close>

lemma generate_points_index:
  "generate_points is n r (f, i) = (pts, g1) \<Longrightarrow> g1 = (f, i + length is)"
proof (induction "is" arbitrary: i pts g1)
  case Nil
  then show ?case by simp
next
  case (Cons k "is")
  obtain pts1 g2 where r: "generate_points is n r (f, i + 1) = (pts1, g2)"
    by (cases "generate_points is n r (f, i + 1)")
  have "g2 = (f, i + 1 + length is)"
    using Cons.IH [OF r] .
  then show ?case
    using Cons.prems r by (simp add: uniform_real_def next_unit_def Let_def)
qed

text \<open>The draws of the sample generator at the start of a block of fifteen.\<close>

lemma sample_seq_at:
  assumes "i mod 15 = 0"
  shows "sample_seq i = 0" "sample_seq (i + 1) = 1 / 2" "sample_seq (i + 2) = 0"
    "sample_seq (i + 3) = 0" "sample_seq (i + 4) = 0" "(i + 15) mod 15 = 0"
proof -
  have m: "(i + k) mod 15 = k mod 15" for k
    using mod_add_left_eq [of i 15 k] assms by simp
  show "sample_seq i = 0" "sample_seq (i + 1) = 1 / 2" "sample_seq (i + 2) = 0"
    "sample_seq (i + 3) = 0" "sample_seq (i + 4) = 0" "(i + 15) mod 15 = 0"
    using assms by (simp_all add: sample_seq_def m del: One_nat_def add_2_eq_Suc' add_2_eq_Suc)
qed

lemma sample_shape:
  assumes "i mod 15 = 0" "generate_shape r (sample_seq, i + 4) = (pts, g1)"
  shows "g1 = (sample_seq, i + 15)"
proof -
  have "uniform_int 10 14 (sample_seq, i + 4) = (10, (sample_seq, i + 5))"
    by (simp add: uniform_int_def next_unit_def sample_seq_at(5) [OF assms(1)] del: One_nat_def add_2_eq_Suc' add_2_eq_Suc)
  then have "generate_points [0 .. 9] 10 r (sample_seq, i + 5) = (pts, g1)"
    using assms(2) by (simp add: generate_shape_def)
  then have "g1 = (sample_seq, i + 5 + length [0 .. 9 :: int])"
    by (rule generate_points_index)
  then show ?thesis
    by simp
qed

lemma sample_velocity:
  assumes "i mod 15 = 0"
  shows "random_asteroid_velocity 3 (sample_seq, i + 2) = (\<lparr>v_x = 40, v_y = 0\<rparr>, (sample_seq, i + 4))"
proof -
  have "uniform_real 0 (2 * pi) (sample_seq, i + 2) = (0, (sample_seq, i + 3))"
    by (simp add: uniform_real_def next_unit_def sample_seq_at(3) [OF assms] del: One_nat_def add_2_eq_Suc' add_2_eq_Suc)
  moreover have "uniform_real 0 40 (sample_seq, i + 3) = (0, (sample_seq, i + 4))"
    by (simp add: uniform_real_def next_unit_def sample_seq_at(4) [OF assms] del: One_nat_def add_2_eq_Suc' add_2_eq_Suc)
  ultimately show ?thesis
    by (simp add: random_asteroid_velocity_def vec_scale_def vec_from_angle_def
        ASTEROID_BASE_SPEED_def del: One_nat_def add_2_eq_Suc' add_2_eq_Suc)
qed

lemma sample_asteroid:
  assumes "i mod 15 = 0"
  shows "\<exists>a. new_Asteroid pos 3 (sample_seq, i + 2) = Inr (a, (sample_seq, i + 15))
     \<and> a_pos a = pos \<and> a_vel a = \<lparr>v_x = 40, v_y = 0\<rparr> \<and> a_size a = 3 \<and> a_radius a = 42"
proof -
  obtain pts g1 where s: "generate_shape 42 (sample_seq, i + 4) = (pts, g1)"
    by (cases "generate_shape 42 (sample_seq, i + 4)")
  have "radii_at 3 = Inr 42"
    by (simp add: radii_at_def ASTEROID_RADII_def)
  then show ?thesis
    using s sample_shape [OF assms s]
    by (simp add: new_Asteroid_def sample_velocity [OF assms]
        del: One_nat_def add_2_eq_Suc' add_2_eq_Suc)
qed

lemma sample_place:
  assumes "i mod 15 = 0"
  shows "place_asteroid \<lparr>v_x = 450, v_y = 325\<rparr> (sample_seq, i)
     = Some (\<lparr>v_x = 0, v_y = 325\<rparr>, (sample_seq, i + 2))"
proof -
  have "clear_at sample_seq \<lparr>v_x = 450, v_y = 325\<rparr> i"
    by (simp add: clear_at_def sample_seq_at(1,2) [OF assms] circle_collision_def
        SCREEN_WIDTH_def SCREEN_HEIGHT_def del: One_nat_def add_2_eq_Suc' add_2_eq_Suc)
  then show ?thesis
    by (subst place_asteroid_step)
      (simp add: sample_seq_at(1,2) [OF assms] SCREEN_WIDTH_def SCREEN_HEIGHT_def
        del: One_nat_def add_2_eq_Suc' add_2_eq_Suc)
qed

lemma sample_spawn:
  assumes "i mod 15 = 0"
  shows "\<exists>as j. spawn_asteroids n \<lparr>v_x = 450, v_y = 325\<rparr> acc (sample_seq, i)
           = Some (Inr (acc @ as, (sample_seq, j)))
     \<and> length as = n
     \<and> list_all (\<lambda>a. a_pos a = \<lparr>v_x = 0, v_y = 325\<rparr> \<and> a_vel a = \<lparr>v_x = 40, v_y = 0\<rparr>
                      \<and> a_size a = 3 \<and> a_radius a = 42) as"
  using assms
proof (induction n arbitrary: acc i)
  case 0
  then show ?case by simp
next
  case (Suc n)
  obtain a where a:
    "new_Asteroid \<lparr>v_x = 0, v_y = 325\<rparr> 3 (sample_seq, i + 2) = Inr (a, (sample_seq, i + 15))"
    "a_pos a = \<lparr>v_x = 0, v_y = 325\<rparr>" "a_vel a = \<lparr>v_x = 40, v_y = 0\<rparr>" "a_size a = 3"
    "a_radius a = 42"
    using sample_asteroid [OF Suc.prems, of "\<lparr>v_x = 0, v_y = 325\<rparr>"] by blast
  obtain as j where r:
    "spawn_asteroids n \<lparr>v_x = 450, v_y = 325\<rparr> (acc @ [a]) (sample_seq, i + 15)
       = Some (Inr ((acc @ [a]) @ as, (sample_seq, j)))"
    "length as = n"
    "list_all (\<lambda>a. a_pos a = \<lparr>v_x = 0, v_y = 325\<rparr> \<and> a_vel a = \<lparr>v_x = 40, v_y = 0\<rparr>
                   \<and> a_size a = 3 \<and> a_radius a = 42) as"
    using Suc.IH [OF sample_seq_at(6) [OF Suc.prems], of "acc @ [a]"] by blast
  have "spawn_asteroids (Suc n) \<lparr>v_x = 450, v_y = 325\<rparr> acc (sample_seq, i)
      = Some (Inr (acc @ (a # as), (sample_seq, j)))"
    using r(1)
    by (simp add: sample_place [OF Suc.prems] a(1) del: One_nat_def add_2_eq_Suc' add_2_eq_Suc)
  then show ?case
    using a(2-5) r(2-3) by (intro exI [of _ "a # as"] exI [of _ j]) simp
qed

lemma sample_new:
  "\<exists>gm j. Game_new (sample_seq, 0) = Some (Inr (gm, (sample_seq, j)))
     \<and> lined_up 0 gm \<and> lives gm = 3 \<and> \<not> game_over gm \<and> p_invuln (player gm) = 0"
proof -
  obtain as j where r:
    "spawn_asteroids 4 \<lparr>v_x = 450, v_y = 325\<rparr> [] (sample_seq, 0)
       = Some (Inr ([] @ as, (sample_seq, j)))"
    "length as = 4"
    "list_all (\<lambda>a. a_pos a = \<lparr>v_x = 0, v_y = 325\<rparr> \<and> a_vel a = \<lparr>v_x = 40, v_y = 0\<rparr>
                   \<and> a_size a = 3 \<and> a_radius a = 42) as"
    using sample_spawn [of 0 4 "[]"] by auto
  have "as \<noteq> []"
    using r(2) by auto
  then show ?thesis
    using r(1,3)
    by (simp add: Game_new_def spawn_wave_def Player_new_def SCREEN_WIDTH_def SCREEN_HEIGHT_def
        LIVES_START_def lined_up_def)
qed


text \<open>A player at rest at the centre, without input: only the timer moves.\<close>

lemma Player_update_still:
  assumes "p_pos p = \<lparr>v_x = 450, v_y = 325\<rparr>" "p_vel p = \<lparr>v_x = 0, v_y = 0\<rparr>" "p_cooldown p \<le> 0"
  shows "Player_update no_input dt p
    = p\<lparr>p_invuln := (if 0 < p_invuln p then p_invuln p - dt else p_invuln p)\<rparr>"
proof -
  have v: "vec_clamp_length \<lparr>v_x = 0, v_y = 0\<rparr> SHIP_MAX_SPEED = \<lparr>v_x = 0, v_y = 0\<rparr>"
    by (simp add: vec_clamp_length_def vec_len_def)
  have w: "wrap_position \<lparr>v_x = 450, v_y = 325\<rparr> = \<lparr>v_x = 450, v_y = 325\<rparr>"
    by (simp add: wrap_position_def SCREEN_WIDTH_def SCREEN_HEIGHT_def)
  have k: "\<not> (key_left no_input \<or> key_a no_input)" "\<not> (key_right no_input \<or> key_d no_input)"
    "\<not> (key_up no_input \<or> key_w no_input)"
    by (simp_all add: no_input_def)
  show ?thesis
    using assms
    by (intro Player.equality) (simp_all add: Player_update_def k vec_scale_def vec_add_def v w Let_def)
qed

lemma Asteroid_update_lined_up:
  assumes "a_pos a = \<lparr>v_x = px, v_y = 325\<rparr>" "a_vel a = \<lparr>v_x = 40, v_y = 0\<rparr>"
    "px + 40 * dt = 450 \<or> px + 40 * dt = 1350"
  shows "Asteroid_update dt a = a\<lparr>a_pos := \<lparr>v_x = 450, v_y = 325\<rparr>\<rparr>"
  using assms
  by (auto simp add: Asteroid_update_def vec_add_def vec_scale_def wrap_position_def
      SCREEN_WIDTH_def SCREEN_HEIGHT_def Let_def)

lemma Player_reset_const: "Player_reset p = Player_reset q"
  by (cases p, cases q) (simp add: Player_reset_def)

text \<open>
  One frame of the sample run: the asteroids arrive at the centre while the player is
  vulnerable, and a life is lost.
\<close>

lemma lined_up_hit:
  assumes "lined_up px gm" "\<not> game_over gm"
    "px + 40 * dt = 450 \<or> px + 40 * dt = 1350"
    "p_invuln (player gm) \<le> 0 \<or> p_invuln (player gm) \<le> dt"
  shows "\<exists>gm1 g1. update no_input dt gm g = Some (Inr (gm1, g1)) \<and> fst g1 = fst g
    \<and> lined_up 450 gm1 \<and> lives gm1 = lives gm - 1 \<and> (game_over gm1 \<longleftrightarrow> lives gm - 1 \<le> 0)
    \<and> p_invuln (player gm1) = 2"
proof -
  define E where "E = update_entities no_input dt gm"
  define P where "P = Player_update no_input dt (player gm)"
  have lu: "bullets gm = []" "asteroids gm \<noteq> []"
    "\<forall>a \<in> set (asteroids gm). a_pos a = \<lparr>v_x = px, v_y = 325\<rparr> \<and> a_vel a = \<lparr>v_x = 40, v_y = 0\<rparr>
        \<and> a_size a = 3 \<and> a_radius a = 42"
    "p_pos (player gm) = \<lparr>v_x = 450, v_y = 325\<rparr>" "p_vel (player gm) = \<lparr>v_x = 0, v_y = 0\<rparr>"
    "p_cooldown (player gm) \<le> 0"
    using assms(1) by (simp_all add: lined_up_def list_all_iff)
  have P: "p_pos P = \<lparr>v_x = 450, v_y = 325\<rparr>" "p_invuln P \<le> 0"
    using assms(4) lu(4) by (auto simp add: P_def Player_update_still [OF lu(4-6)])
  have moved: "map (Asteroid_update dt) (asteroids gm)
      = map (\<lambda>a. a\<lparr>a_pos := \<lparr>v_x = 450, v_y = 325\<rparr>\<rparr>) (asteroids gm)"
    using lu(3) assms(3) by (intro map_cong refl Asteroid_update_lined_up) auto
  have E: "bullets E = []" "player E = P" "game_over E = game_over gm" "lives E = lives gm"
    "asteroids E = map (\<lambda>a. a\<lparr>a_pos := \<lparr>v_x = 450, v_y = 325\<rparr>\<rparr>) (asteroids gm)"
    using lu(1) moved
    by (simp_all add: E_def P_def update_entities_def update_fire_def no_input_def Let_def)
  have tiers: "\<forall>a \<in> set (asteroids E). tier_ok a"
    using lu(3) by (simp add: E(5) tier_ok_def)
  obtain new g1 where r:
    "handle_collisions E g =
       Inr (player_vs_asteroids
              (E\<lparr>score := score E
                    + sum_list (map (\<lambda>a. 10 * a_size a)
                        (filter (is_hit (bullets E)) (asteroids E))),
                  asteroids := filter (\<lambda>a. \<not> is_hit (bullets E) a) (asteroids E) @ new,
                  bullets := filter (\<lambda>b. \<not> b_life b \<le> 0)
                                (mark_bullets (bullets E) (asteroids E))\<rparr>),
            g1)"
    "map pos_size new = concat (map children_of (filter (is_hit (bullets E)) (asteroids E)))"
    "fst g1 = fst g"
    using handle_collisions_run [OF tiers, of g] by blast
  have new: "new = []"
    using r(2) by (simp add: E(1) is_hit_def)
  define X where "X = E\<lparr>score := score E, asteroids := asteroids E, bullets := []\<rparr>"
  have hc: "handle_collisions E g = Inr (player_vs_asteroids X, g1)"
    using r(1) by (simp add: new E(1) is_hit_def mark_bullets_def X_def)
  obtain a where a: "a \<in> set (asteroids gm)"
    using lu(2) by (cases "asteroids gm") auto
  have "player_overlaps (player X) (a\<lparr>a_pos := \<lparr>v_x = 450, v_y = 325\<rparr>\<rparr>)"
    using a lu(3) P(1)
    by (simp add: X_def E(2) player_overlaps_def circle_collision_def SHIP_RADIUS_def)
  then have "\<exists>a \<in> set (asteroids X). player_overlaps (player X) a"
    using a by (auto simp add: X_def E(5))
  moreover have "p_invuln (player X) \<le> 0"
    using P(2) by (simp add: X_def E(2))
  ultimately have pv: "player_vs_asteroids X
      = X\<lparr>lives := lives X - 1, player := Player_reset (player X),
          game_over := (lives X - 1 \<le> 0 \<or> game_over X)\<rparr>"
    by (simp add: player_vs_asteroids_def player_hits_hit)
  define R where "R = player_vs_asteroids X"
  have R: "asteroids R \<noteq> []" "lives R = lives gm - 1" "game_over R \<longleftrightarrow> lives gm - 1 \<le> 0"
    "p_invuln (player R) = 2" "lined_up 450 R"
    using lu(2,3) assms(2) unfolding R_def pv
    by (simp_all add: X_def E Player_reset_def lined_up_def list_all_iff
        SCREEN_WIDTH_def SCREEN_HEIGHT_def)
  have "update no_input dt gm g = Some (Inr (R, g1))"
    using assms(2) hc R(1) unfolding E_def R_def by (simp add: update_def)
  then show ?thesis
    using R r(3) by blast
qed

lemma sample_seq_pair: "sample_seq i = 0 \<or> sample_seq (i + 1) = 0"
proof (cases "i mod 15 = 1")
  case True
  then have "(i + 1) mod 15 = 2"
    using mod_add_left_eq [of i 15 1] by simp
  then show ?thesis
    by (simp add: sample_seq_def del: One_nat_def)
next
  case False
  then show ?thesis
    by (simp add: sample_seq_def)
qed


lemma sample_seq_clear: "\<forall>i. \<exists>k. clear_at sample_seq \<lparr>v_x = 450, v_y = 325\<rparr> (i + 2 * k)"
proof
  fix i :: nat
  have far: "\<not> a + z * z \<le> b" if "b < a" for a b z :: real
    using that zero_le_square [of z] by linarith
  have "clear_at sample_seq \<lparr>v_x = 450, v_y = 325\<rparr> i"
  proof (cases "sample_seq i = 0")
    case True
    then show ?thesis
      by (simp add: clear_at_def circle_collision_def SCREEN_WIDTH_def SCREEN_HEIGHT_def
          Let_def far del: One_nat_def)
  next
    case False
    then have "sample_seq (i + 1) = 0"
      using sample_seq_pair [of i] by simp
    then show ?thesis
      by (simp add: clear_at_def circle_collision_def SCREEN_WIDTH_def SCREEN_HEIGHT_def
          Let_def far del: One_nat_def)
  qed
  then have "clear_at sample_seq \<lparr>v_x = 450, v_y = 325\<rparr> (i + 2 * 0)"
    by simp
  then show "\<exists>k. clear_at sample_seq \<lparr>v_x = 450, v_y = 325\<rparr> (i + 2 * k)"
    by blast
qed

lemma restart_lives:
  assumes "game_over gm" "\<forall>i. \<exists>k. clear_at (fst g) \<lparr>v_x = 450, v_y = 325\<rparr> (i + 2 * k)"
  shows "\<exists>gm1 g1. update (no_input\<lparr>enter_pressed := True\<rparr>) dt gm g = Some (Inr (gm1, g1))
    \<and> lives gm1 = 3"
proof -
  let ?r = "gm\<lparr>score := 0, lives := LIVES_START, wave := 1, game_over := False,
               player := Player_reset (player gm), bullets := []\<rparr>"
  have "\<forall>i. \<exists>k. clear_at (fst g) (p_pos (player ?r)) (i + 2 * k)"
    using assms(2) by (simp add: Player_reset_fields)
  then obtain as g1 where "spawn_wave 1 ?r g = Some (Inr (?r\<lparr>asteroids := as\<rparr>, g1))"
    using spawn_wave_run [of g ?r 1] by auto
  then have "update (no_input\<lparr>enter_pressed := True\<rparr>) dt gm g
      = Some (Inr (?r\<lparr>asteroids := as\<rparr>, g1))"
    using assms(1) by (simp add: update_def reset_def Let_def no_input_def)
  then show ?thesis
    by (simp add: LIVES_START_def)
qed


subsection \<open>The sample run in \<^verbatim>\<open>part_000\<close>\<close>

lemma VecAdd_eq: "VecAdd = vec_add"
  by (intro ext) (simp add: VecAdd_def vec_add_def)

lemma VecFromAngle_eq: "VecFromAngle = vec_from_angle"
  by (rule ext) (simp add: VecFromAngle_def vec_from_angle_def)

lemma Player_Update_eq: "Player_Update = Player_update"
  unfolding Player_Update_def [abs_def] Player_update_def [abs_def] VecScale_eq VecAdd_eq
    VecFromAngle_eq VecClampLength_eq WrapPosition_eq ..

lemma Asteroid_Update_eq: "Asteroid_Update = Asteroid_update"
  unfolding Asteroid_Update_def [abs_def] Asteroid_update_def [abs_def] VecScale_eq VecAdd_eq
    WrapPosition_eq ..

lemma GeneratePoints_index:
  "GeneratePoints is n r (f, i) = (pts, g1) \<Longrightarrow> g1 = (f, i + length is)"
proof (induction "is" arbitrary: i pts g1)
  case Nil
  then show ?case by simp
next
  case (Cons k "is")
  obtain pts1 g2 where r: "GeneratePoints is n r (f, i + 1) = (pts1, g2)"
    by (cases "GeneratePoints is n r (f, i + 1)")
  have "g2 = (f, i + 1 + length is)"
    using Cons.IH [OF r] .
  then show ?case
    using Cons.prems r by (simp add: RandomRange_def next_unit_def Let_def)
qed

lemma sample_Shape:
  assumes "i mod 15 = 0" "GenerateShape r (sample_seq, i + 4) = (pts, g1)"
  shows "g1 = (sample_seq, i + 15)"
proof -
  have "GetRandomValue 10 14 (sample_seq, i + 4) = (10, (sample_seq, i + 5))"
    by (simp add: GetRandomValue_def next_unit_def sample_seq_at(5) [OF assms(1)]
        del: One_nat_def add_2_eq_Suc' add_2_eq_Suc)
  then have "GeneratePoints [0 .. 9] 10 r (sample_seq, i + 5) = (pts, g1)"
    using assms(2) by (simp add: GenerateShape_def)
  then have "g1 = (sample_seq, i + 5 + length [0 .. 9 :: int])"
    by (rule GeneratePoints_index)
  then show ?thesis
    by simp
qed

lemma sample_Velocity:
  assumes "i mod 15 = 0"
  shows "RandomAsteroidVelocity 3 (sample_seq, i + 2) = (\<lparr>v_x = 40, v_y = 0\<rparr>, (sample_seq, i + 4))"
proof -
  have "RandomRange 0 (pi * 2) (sample_seq, i + 2) = (0, (sample_seq, i + 3))"
    by (simp add: RandomRange_def next_unit_def sample_seq_at(3) [OF assms]
        del: One_nat_def add_2_eq_Suc' add_2_eq_Suc)
  moreover have "RandomRange 0 40 (sample_seq, i + 3) = (0, (sample_seq, i + 4))"
    by (simp add: RandomRange_def next_unit_def sample_seq_at(4) [OF assms]
        del: One_nat_def add_2_eq_Suc' add_2_eq_Suc)
  ultimately show ?thesis
    by (simp add: RandomAsteroidVelocity_def VecScale_def VecFromAngle_def
        ASTEROID_BASE_SPEED_def del: One_nat_def add_2_eq_Suc' add_2_eq_Suc)
qed

lemma sample_Asteroid:
  assumes "i mod 15 = 0"
  shows "\<exists>a. Asteroid_ctor pos 3 (sample_seq, i + 2) = (a, (sample_seq, i + 15))
     \<and> a_pos a = pos \<and> a_vel a = \<lparr>v_x = 40, v_y = 0\<rparr> \<and> a_size a = 3 \<and> a_radius a = 42"
proof -
  obtain pts g1 where s: "GenerateShape 42 (sample_seq, i + 4) = (pts, g1)"
    by (cases "GenerateShape 42 (sample_seq, i + 4)")
  show ?thesis
    using s sample_Shape [OF assms s]
    by (simp add: Asteroid_ctor_def sample_Velocity [OF assms]
        del: One_nat_def add_2_eq_Suc' add_2_eq_Suc)
qed

lemma sample_Place:
  assumes "i mod 15 = 0"
  shows "PlaceAsteroid \<lparr>v_x = 450, v_y = 325\<rparr> (sample_seq, i)
     = Some (\<lparr>v_x = 0, v_y = 325\<rparr>, (sample_seq, i + 2))"
proof -
  have "clear_at sample_seq \<lparr>v_x = 450, v_y = 325\<rparr> i"
    by (simp add: clear_at_def sample_seq_at(1,2) [OF assms] circle_collision_def
        SCREEN_WIDTH_def SCREEN_HEIGHT_def del: One_nat_def add_2_eq_Suc' add_2_eq_Suc)
  then show ?thesis
    by (subst PlaceAsteroid_step)
      (simp add: sample_seq_at(1,2) [OF assms] SCREEN_WIDTH_def SCREEN_HEIGHT_def
        del: One_nat_def add_2_eq_Suc' add_2_eq_Suc)
qed

lemma sample_Spawn:
  assumes "i mod 15 = 0"
  shows "\<exists>as j. SpawnAsteroids n \<lparr>v_x = 450, v_y = 325\<rparr> acc (sample_seq, i)
           = Some (acc @ as, (sample_seq, j))
     \<and> length as = n
     \<and> list_all (\<lambda>a. a_pos a = \<lparr>v_x = 0, v_y = 325\<rparr> \<and> a_vel a = \<lparr>v_x = 40, v_y = 0\<rparr>
                      \<and> a_size a = 3 \<and> a_radius a = 42) as"
  using assms
proof (induction n arbitrary: acc i)
  case 0
  then show ?case by simp
next
  case (Suc n)
  obtain a where a:
    "Asteroid_ctor \<lparr>v_x = 0, v_y = 325\<rparr> 3 (sample_seq, i + 2) = (a, (sample_seq, i + 15))"
    "a_pos a = \<lparr>v_x = 0, v_y = 325\<rparr>" "a_vel a = \<lparr>v_x = 40, v_y = 0\<rparr>" "a_size a = 3"
    "a_radius a = 42"
    using sample_Asteroid [OF Suc.prems, of "\<lparr>v_x = 0, v_y = 325\<rparr>"] by blast
  obtain as j where r:
    "SpawnAsteroids n \<lparr>v_x = 450, v_y = 325\<rparr> (acc @ [a]) (sample_seq, i + 15)
       = Some ((acc @ [a]) @ as, (sample_seq, j))"
    "length as = n"
    "list_all (\<lambda>a. a_pos a = \<lparr>v_x = 0, v_y = 325\<rparr> \<and> a_vel a = \<lparr>v_x = 40, v_y = 0\<rparr>
                   \<and> a_size a = 3 \<and> a_radius a = 42) as"
    using Suc.IH [OF sample_seq_at(6) [OF Suc.prems], of "acc @ [a]"] by blast
  have "SpawnAsteroids (Suc n) \<lparr>v_x = 450, v_y = 325\<rparr> acc (sample_seq, i)
      = Some (acc @ (a # as), (sample_seq, j))"
    using r(1)
    by (simp add: sample_Place [OF Suc.prems] a(1) del: One_nat_def add_2_eq_Suc' add_2_eq_Suc)
  then show ?case
    using a(2-5) r(2-3) by (intro exI [of _ "a # as"] exI [of _ j]) simp
qed

lemma sample_ctor:
  "\<exists>gm j. Game_ctor (sample_seq, 0) = Some (gm, (sample_seq, j))
     \<and> lined_up 0 gm \<and> lives gm = 3 \<and> \<not> game_over gm \<and> p_invuln (player gm) = 2"
proof -
  obtain as j where r:
    "SpawnAsteroids 4 \<lparr>v_x = 450, v_y = 325\<rparr> [] (sample_seq, 0)
       = Some ([] @ as, (sample_seq, j))"
    "length as = 4"
    "list_all (\<lambda>a. a_pos a = \<lparr>v_x = 0, v_y = 325\<rparr> \<and> a_vel a = \<lparr>v_x = 40, v_y = 0\<rparr>
                   \<and> a_size a = 3 \<and> a_radius a = 42) as"
    using sample_Spawn [of 0 4 "[]"] by auto
  have "as \<noteq> []"
    using r(2) by auto
  then show ?thesis
    using r(1,3)
    by (simp add: Game_ctor_def SpawnWave_def Player_ctor_def SCREEN_WIDTH_def SCREEN_HEIGHT_def
        LIVES_START_def lined_up_def)
qed

lemma Lined_up_hit:
  assumes "lined_up px gm" "\<not> game_over gm"
    "px + 40 * dt = 450 \<or> px + 40 * dt = 1350"
    "p_invuln (player gm) \<le> 0 \<or> p_invuln (player gm) \<le> dt"
  shows "\<exists>gm1 g1. Update no_input dt gm g = Some (gm1, g1) \<and> fst g1 = fst g
    \<and> lined_up 450 gm1 \<and> lives gm1 = lives gm - 1 \<and> (game_over gm1 \<longleftrightarrow> lives gm - 1 \<le> 0)
    \<and> p_invuln (player gm1) = 2"
proof -
  define E where "E = Update_entities no_input dt gm"
  define P where "P = Player_update no_input dt (player gm)"
  have lu: "bullets gm = []" "asteroids gm \<noteq> []"
    "\<forall>a \<in> set (asteroids gm). a_pos a = \<lparr>v_x = px, v_y = 325\<rparr> \<and> a_vel a = \<lparr>v_x = 40, v_y = 0\<rparr>
        \<and> a_size a = 3 \<and> a_radius a = 42"
    "p_pos (player gm) = \<lparr>v_x = 450, v_y = 325\<rparr>" "p_vel (player gm) = \<lparr>v_x = 0, v_y = 0\<rparr>"
    "p_cooldown (player gm) \<le> 0"
    using assms(1) by (simp_all add: lined_up_def list_all_iff)
  have P: "p_pos P = \<lparr>v_x = 450, v_y = 325\<rparr>" "p_invuln P \<le> 0"
    using assms(4) lu(4) by (auto simp add: P_def Player_update_still [OF lu(4-6)])
  have moved: "map (Asteroid_update dt) (asteroids gm)
      = map (\<lambda>a. a\<lparr>a_pos := \<lparr>v_x = 450, v_y = 325\<rparr>\<rparr>) (asteroids gm)"
    using lu(3) assms(3) by (intro map_cong refl Asteroid_update_lined_up) auto
  have E: "bullets E = []" "player E = P" "game_over E = game_over gm" "lives E = lives gm"
    "asteroids E = map (\<lambda>a. a\<lparr>a_pos := \<lparr>v_x = 450, v_y = 325\<rparr>\<rparr>) (asteroids gm)"
    using lu(1) moved
    by (simp_all add: E_def P_def Update_entities_def Update_fire_def no_input_def Let_def
        Player_Update_eq Asteroid_Update_eq)
  obtain css g1 where r:
    "HandleCollisions E g =
       (player_vs_asteroids
          (E\<lparr>bullets := mark_bullets (bullets E) (asteroids E),
             score := score E
               + sum_list (map (\<lambda>a. 10 * a_size a) (filter (is_hit (bullets E)) (asteroids E))),
             asteroids := concat css\<rparr>),
        g1)"
    "list_all2 (\<lambda>a cs. if is_hit (bullets E) a then map pos_size cs = children_of a
                       else cs = [a]) (asteroids E) css"
    "fst g1 = fst g"
    using HandleCollisions_run [of E g] by blast
  have "list_all2 (\<lambda>a cs. cs = [a]) (asteroids E) css"
    using r(2) by (simp add: E(1) is_hit_def)
  then have css: "concat css = asteroids E"
    by (induction rule: list_all2_induct) simp_all
  define X where "X = E\<lparr>bullets := [], score := score E, asteroids := asteroids E\<rparr>"
  have hc: "HandleCollisions E g = (player_vs_asteroids X, g1)"
    using r(1) by (simp add: css E(1) is_hit_def mark_bullets_def X_def)
  obtain a where a: "a \<in> set (asteroids gm)"
    using lu(2) by (cases "asteroids gm") auto
  have "player_overlaps (player X) (a\<lparr>a_pos := \<lparr>v_x = 450, v_y = 325\<rparr>\<rparr>)"
    using a lu(3) P(1)
    by (simp add: X_def E(2) player_overlaps_def circle_collision_def SHIP_RADIUS_def)
  then have "\<exists>a \<in> set (asteroids X). player_overlaps (player X) a"
    using a by (auto simp add: X_def E(5))
  moreover have "p_invuln (player X) \<le> 0"
    using P(2) by (simp add: X_def E(2))
  ultimately have pv: "player_vs_asteroids X
      = X\<lparr>lives := lives X - 1, player := Player_reset (player X),
          game_over := (lives X - 1 \<le> 0 \<or> game_over X)\<rparr>"
    by (simp add: player_vs_asteroids_def player_hits_hit)
  define R where "R = player_vs_asteroids X"
  have R: "asteroids R \<noteq> []" "lives R = lives gm - 1" "game_over R \<longleftrightarrow> lives gm - 1 \<le> 0"
    "p_invuln (player R) = 2" "lined_up 450 R"
    using lu(2,3) assms(2) unfolding R_def pv
    by (simp_all add: X_def E Player_reset_def lined_up_def list_all_iff
        SCREEN_WIDTH_def SCREEN_HEIGHT_def)
  have "Update no_input dt gm g = Some (R, g1)"
    using assms(2) hc R(1) unfolding E_def R_def by (simp add: Update_def)
  then show ?thesis
    using R r(3) by blast
qed

lemma Restart_lives:
  assumes "game_over gm" "\<forall>i. \<exists>k. clear_at (fst g) \<lparr>v_x = 450, v_y = 325\<rparr> (i + 2 * k)"
  shows "\<exists>gm1 g1. Update (no_input\<lparr>enter_pressed := True\<rparr>) dt gm g = Some (gm1, g1)
    \<and> lives gm1 = 3"
proof -
  let ?r = "gm\<lparr>score := 0, lives := LIVES_START, wave := 1, game_over := False,
               player := Player_Reset (player gm), bullets := []\<rparr>"
  have "\<forall>i. \<exists>k. clear_at (fst g) (p_pos (player ?r)) (i + 2 * k)"
    using assms(2) by (simp add: Player_Reset_def SCREEN_WIDTH_def SCREEN_HEIGHT_def)
  then obtain as g1 where "SpawnWave ?r g = Some (?r\<lparr>asteroids := as\<rparr>, g1)"
    using SpawnWave_run [of g ?r] by auto
  then have "Update (no_input\<lparr>enter_pressed := True\<rparr>) dt gm g = Some (?r\<lparr>asteroids := as\<rparr>, g1)"
    using assms(1) by (simp add: Update_def Reset_def no_input_def)
  then show ?thesis
    by (simp add: LIVES_START_def)
qed


subsection \<open>The counters: the claim and its limits\<close>

lemma run_frames_reachable:
  "reachable s \<Longrightarrow> \<forall>f \<in> set fs. 0 \<le> snd f \<Longrightarrow> run_frames fs s = Some (Inr s1) \<Longrightarrow>
   reachable s1"
proof (induction fs arbitrary: s)
  case Nil
  then show ?case by simp
next
  case (Cons f fs)
  obtain inp dt where f: "f = (inp, dt)"
    by (cases f)
  obtain gm g where s: "s = (gm, g)"
    by (cases s)
  obtain s2 where u: "update inp dt gm g = Some (Inr s2)" "run_frames fs s2 = Some (Inr s1)"
    using Cons.prems(3) by (auto simp add: f s split: option.splits sum.splits)
  have "reachable s2"
    using Cons.prems(1,2) u(1) by (auto simp add: f s intro: reachable_update)
  then show ?case
    using Cons.IH [of s2] Cons.prems(2) u(2) by simp
qed

text \<open>Every state the frame loop ends in is a state a run reaches.\<close>

lemma main_loop_reachable:
  assumes "\<forall>f \<in> set fs. 0 \<le> snd f" "main_loop g fs = Some (Inr s)"
  shows "reachable s"
proof -
  obtain s0 where "Game_new g = Some (Inr s0)" "run_frames fs s0 = Some (Inr s)"
    using assms(2) by (auto simp add: main_loop_def split: option.splits sum.splits)
  then show ?thesis
    using run_frames_reachable [OF reachable_new assms(1)] by blast
qed

lemma RunFrames_Reachable:
  "Reachable s \<Longrightarrow> \<forall>f \<in> set fs. 0 \<le> snd f \<Longrightarrow> RunFrames fs s = Some s1 \<Longrightarrow> Reachable s1"
proof (induction fs arbitrary: s)
  case Nil
  then show ?case by simp
next
  case (Cons f fs)
  obtain inp dt where f: "f = (inp, dt)"
    by (cases f)
  obtain gm g where s: "s = (gm, g)"
    by (cases s)
  obtain s2 where u: "Update inp dt gm g = Some s2" "RunFrames fs s2 = Some s1"
    using Cons.prems(3) by (auto simp add: f s split: option.splits)
  have "Reachable s2"
    using Cons.prems(1,2) u(1) by (auto simp add: f s intro: Reachable_Update)
  then show ?case
    using Cons.IH [of s2] Cons.prems(2) u(2) by simp
qed

lemma MainLoop_Reachable:
  assumes "\<forall>f \<in> set fs. 0 \<le> snd f" "MainLoop g fs = Some s"
  shows "Reachable s"
proof -
  obtain s0 where "Game_ctor g = Some s0" "RunFrames fs s0 = Some s"
    using assms(2) by (auto simp add: MainLoop_def split: option.splits)
  then show ?thesis
    using RunFrames_Reachable [OF Reachable_ctor assms(1)] by blast
qed

text \<open>The sample run, frame by frame, in both variants.\<close>

lemma sample_run:
  "\<exists>gm0 g0 gm1 g1 gm3 g3 gm4 g4.
     main_loop (sample_seq, 0) [] = Some (Inr (gm0, g0))
     \<and> update no_input 11.25 gm0 g0 = Some (Inr (gm1, g1))
     \<and> lives gm0 = 3 \<and> lives gm1 = 2
     \<and> main_loop (sample_seq, 0) sample_frames = Some (Inr (gm3, g3))
     \<and> lives gm3 = 0 \<and> game_over gm3
     \<and> update (fst restart_frame) (snd restart_frame) gm3 g3 = Some (Inr (gm4, g4))
     \<and> main_loop (sample_seq, 0) (sample_frames @ [restart_frame]) = Some (Inr (gm4, g4))
     \<and> lives gm4 = 3"
proof -
  obtain gm0 j0 where 0: "Game_new (sample_seq, 0) = Some (Inr (gm0, (sample_seq, j0)))"
    "lined_up 0 gm0" "lives gm0 = 3" "\<not> game_over gm0" "p_invuln (player gm0) = 0"
    using sample_new by blast
  obtain gm1 g1 where 1: "update no_input 11.25 gm0 (sample_seq, j0) = Some (Inr (gm1, g1))"
    "fst g1 = sample_seq" "lined_up 450 gm1" "lives gm1 = 2" "\<not> game_over gm1"
    "p_invuln (player gm1) = 2"
    using lined_up_hit [OF 0(2) 0(4), of "11.25" "(sample_seq, j0)"] 0(3,5) by auto
  obtain gm2 g2 where 2: "update no_input 22.5 gm1 g1 = Some (Inr (gm2, g2))"
    "fst g2 = sample_seq" "lined_up 450 gm2" "lives gm2 = 1" "\<not> game_over gm2"
    "p_invuln (player gm2) = 2"
    using lined_up_hit [OF 1(3) 1(5), of "22.5" g1] 1(2,4,6) by auto
  obtain gm3 g3 where 3: "update no_input 22.5 gm2 g2 = Some (Inr (gm3, g3))"
    "fst g3 = sample_seq" "lives gm3 = 0" "game_over gm3"
    using lined_up_hit [OF 2(3) 2(5), of "22.5" g2] 2(2,4,6) by auto
  obtain gm4 g4 where 4:
    "update (no_input\<lparr>enter_pressed := True\<rparr>) 0 gm3 g3 = Some (Inr (gm4, g4))" "lives gm4 = 3"
    using restart_lives [OF 3(4), of g3 0] sample_seq_clear by (auto simp add: 3(2))
  have "main_loop (sample_seq, 0) [] = Some (Inr (gm0, (sample_seq, j0)))"
    using 0(1) by (simp add: main_loop_def)
  moreover have "main_loop (sample_seq, 0) sample_frames = Some (Inr (gm3, g3))"
    using 0(1) 1(1) 2(1) 3(1) by (simp add: main_loop_def sample_frames_def)
  moreover have "main_loop (sample_seq, 0) (sample_frames @ [restart_frame])
      = Some (Inr (gm4, g4))"
    using 0(1) 1(1) 2(1) 3(1) 4(1)
    by (simp add: main_loop_def sample_frames_def restart_frame_def)
  moreover have "update (fst restart_frame) (snd restart_frame) gm3 g3 = Some (Inr (gm4, g4))"
    using 4(1) by (simp add: restart_frame_def)
  ultimately show ?thesis
    using 0(3) 1(1,4) 3(3,4) 4(2) by blast
qed

lemma Sample_Run:
  "\<exists>gm0 g0 gm1 g1 gm3 g3 gm4 g4.
     MainLoop (sample_seq, 0) [] = Some (gm0, g0)
     \<and> Update no_input 11.25 gm0 g0 = Some (gm1, g1)
     \<and> lives gm0 = 3 \<and> lives gm1 = 2
     \<and> MainLoop (sample_seq, 0) sample_frames = Some (gm3, g3)
     \<and> lives gm3 = 0 \<and> game_over gm3
     \<and> Update (fst restart_frame) (snd restart_frame) gm3 g3 = Some (gm4, g4)
     \<and> MainLoop (sample_seq, 0) (sample_frames @ [restart_frame]) = Some (gm4, g4)
     \<and> lives gm4 = 3"
proof -
  obtain gm0 j0 where 0: "Game_ctor (sample_seq, 0) = Some (gm0, (sample_seq, j0))"
    "lined_up 0 gm0" "lives gm0 = 3" "\<not> game_over gm0" "p_invuln (player gm0) = 2"
    using sample_ctor by blast
  obtain gm1 g1 where 1: "Update no_input 11.25 gm0 (sample_seq, j0) = Some (gm1, g1)"
    "fst g1 = sample_seq" "lined_up 450 gm1" "lives gm1 = 2" "\<not> game_over gm1"
    "p_invuln (player gm1) = 2"
    using Lined_up_hit [OF 0(2) 0(4), of "11.25" "(sample_seq, j0)"] 0(3,5) by auto
  obtain gm2 g2 where 2: "Update no_input 22.5 gm1 g1 = Some (gm2, g2)"
    "fst g2 = sample_seq" "lined_up 450 gm2" "lives gm2 = 1" "\<not> game_over gm2"
    "p_invuln (player gm2) = 2"
    using Lined_up_hit [OF 1(3) 1(5), of "22.5" g1] 1(2,4,6) by auto
  obtain gm3 g3 where 3: "Update no_input 22.5 gm2 g2 = Some (gm3, g3)"
    "fst g3 = sample_seq" "lives gm3 = 0" "game_over gm3"
    using Lined_up_hit [OF 2(3) 2(5), of "22.5" g2] 2(2,4,6) by auto
  obtain gm4 g4 where 4:
    "Update (no_input\<lparr>enter_pressed := True\<rparr>) 0 gm3 g3 = Some (gm4, g4)" "lives gm4 = 3"
    using Restart_lives [OF 3(4), of g3 0] sample_seq_clear by (auto simp add: 3(2))
  have "MainLoop (sample_seq, 0) [] = Some (gm0, (sample_seq, j0))"
    using 0(1) by (simp add: MainLoop_def)
  moreover have "MainLoop (sample_seq, 0) sample_frames = Some (gm3, g3)"
    using 0(1) 1(1) 2(1) 3(1) by (simp add: MainLoop_def sample_frames_def)
  moreover have "MainLoop (sample_seq, 0) (sample_frames @ [restart_frame]) = Some (gm4, g4)"
    using 0(1) 1(1) 2(1) 3(1) 4(1)
    by (simp add: MainLoop_def sample_frames_def restart_frame_def)
  moreover have "Update (fst restart_frame) (snd restart_frame) gm3 g3 = Some (gm4, g4)"
    using 4(1) by (simp add: restart_frame_def)
  ultimately show ?thesis
    using 0(3) 1(1,4) 3(3,4) 4(2) by blast
qed

text \<open>
  C6, as stated, fails at a restart.  The sample run (generator \<open>sample_seq\<close>, three
  frames without input, all with a frame time above 0) loses a life in every frame and
  ends with 0 lives; one more frame, with the restart key, ends with 3 lives.  Both
  variants.
\<close>

theorem counters_monotone_counterexample:
  "final_lives (main_loop (sample_seq, 0) sample_frames) = Some 0
   \<and> final_lives (main_loop (sample_seq, 0) (sample_frames @ [restart_frame])) = Some 3
   \<and> FinalLives (MainLoop (sample_seq, 0) sample_frames) = Some 0
   \<and> FinalLives (MainLoop (sample_seq, 0) (sample_frames @ [restart_frame])) = Some 3"
proof -
  obtain gm3 g3 gm4 g4 where
    "main_loop (sample_seq, 0) sample_frames = Some (Inr (gm3, g3))" "lives gm3 = 0"
    "main_loop (sample_seq, 0) (sample_frames @ [restart_frame]) = Some (Inr (gm4, g4))"
    "lives gm4 = 3"
    using sample_run by blast
  moreover obtain hm3 h3 hm4 h4 where
    "MainLoop (sample_seq, 0) sample_frames = Some (hm3, h3)" "lives hm3 = 0"
    "MainLoop (sample_seq, 0) (sample_frames @ [restart_frame]) = Some (hm4, h4)"
    "lives hm4 = 3"
    using Sample_Run by blast
  ultimately show ?thesis
    by (simp add: final_lives_def FinalLives_def)
qed


theorem counters_monotone_witness:
  "(\<exists>gm g gm1 g1 gm3 g3 gm4 g4.
      reachable (gm, g) \<and> 0 \<le> lives gm \<and> \<not> game_over gm
      \<and> update no_input 11.25 gm g = Some (Inr (gm1, g1))
      \<and> wave gm \<le> wave gm1 \<and> score gm \<le> score gm1 \<and> lives gm1 \<le> lives gm
      \<and> reachable (gm3, g3) \<and> lives gm3 = 0 \<and> game_over gm3
      \<and> update (fst restart_frame) (snd restart_frame) gm3 g3 = Some (Inr (gm4, g4))
      \<and> wave gm4 = 1 \<and> score gm4 = 0 \<and> lives gm4 = 3)
   \<and> (\<exists>gm g gm1 g1 gm3 g3 gm4 g4.
      Reachable (gm, g) \<and> 0 \<le> lives gm \<and> \<not> game_over gm
      \<and> Update no_input 11.25 gm g = Some (gm1, g1)
      \<and> wave gm \<le> wave gm1 \<and> score gm \<le> score gm1 \<and> lives gm1 \<le> lives gm
      \<and> Reachable (gm3, g3) \<and> lives gm3 = 0 \<and> game_over gm3
      \<and> Update (fst restart_frame) (snd restart_frame) gm3 g3 = Some (gm4, g4)
      \<and> wave gm4 = 1 \<and> score gm4 = 0 \<and> lives gm4 = 3)"
proof -
  have dts: "\<forall>f \<in> set []. 0 \<le> snd (f :: Input \<times> real)" "\<forall>f \<in> set sample_frames. 0 \<le> snd f"
    by (simp_all add: sample_frames_def)
  have keys: "\<not> enter_pressed no_input" "enter_pressed (fst restart_frame)"
    by (simp_all add: no_input_def restart_frame_def)
  obtain gm0 g0 gm1 g1 gm3 g3 gm4 g4 where a:
    "main_loop (sample_seq, 0) [] = Some (Inr (gm0, g0))"
    "update no_input 11.25 gm0 g0 = Some (Inr (gm1, g1))"
    "main_loop (sample_seq, 0) sample_frames = Some (Inr (gm3, g3))"
    "update (fst restart_frame) (snd restart_frame) gm3 g3 = Some (Inr (gm4, g4))"
    and a3': "lives gm3 = 0" "game_over gm3" and l0: "lives gm0 = 3"
    using sample_run by blast
  have ra: "reachable (gm0, g0)" "reachable (gm3, g3)"
    using main_loop_reachable [OF dts(1) a(1)] main_loop_reachable [OF dts(2) a(3)] by simp_all
  obtain hm0 h0 hm1 h1 hm3 h3 hm4 h4 where b:
    "MainLoop (sample_seq, 0) [] = Some (hm0, h0)"
    "Update no_input 11.25 hm0 h0 = Some (hm1, h1)"
    "MainLoop (sample_seq, 0) sample_frames = Some (hm3, h3)"
    "Update (fst restart_frame) (snd restart_frame) hm3 h3 = Some (hm4, h4)"
    and b3': "lives hm3 = 0" "game_over hm3" and m0: "lives hm0 = 3"
    using Sample_Run by blast
  have rb: "Reachable (hm0, h0)" "Reachable (hm3, h3)"
    using MainLoop_Reachable [OF dts(1) b(1)] MainLoop_Reachable [OF dts(2) b(3)] by simp_all
  have a0: "0 \<le> lives gm0 \<and> (lives gm0 = 0 \<longleftrightarrow> game_over gm0)
      \<and> wave gm0 \<le> wave gm1 \<and> score gm0 \<le> score gm1 \<and> lives gm1 \<le> lives gm0"
    using ra(1) a(2) keys(1)
      counters_monotone [where gm = gm0 and g = g0 and inp = no_input and dt = "11.25"
        and ?gm1.0 = gm1 and ?g1.0 = g1]
    by simp
  have a3: "wave gm4 = 1 \<and> score gm4 = 0 \<and> lives gm4 = 3"
    using ra(2) a(4) keys(2) a3'(2)
      counters_monotone [where gm = gm3 and g = g3 and inp = "fst restart_frame"
        and dt = "snd restart_frame" and ?gm1.0 = gm4 and ?g1.0 = g4]
    by simp
  have b0: "0 \<le> lives hm0 \<and> (lives hm0 = 0 \<longleftrightarrow> game_over hm0)
      \<and> wave hm0 \<le> wave hm1 \<and> score hm0 \<le> score hm1 \<and> lives hm1 \<le> lives hm0"
    using rb(1) b(2) keys(1)
      counters_monotone [where gm = hm0 and g = h0 and inp = no_input and dt = "11.25"
        and ?gm2.0 = hm1 and ?g2.0 = h1]
    by simp
  have b3: "wave hm4 = 1 \<and> score hm4 = 0 \<and> lives hm4 = 3"
    using rb(2) b(4) keys(2) b3'(2)
      counters_monotone [where gm = hm3 and g = h3 and inp = "fst restart_frame"
        and dt = "snd restart_frame" and ?gm2.0 = hm4 and ?g2.0 = h4]
    by simp
  have a0': "\<not> game_over gm0"
    using a0 l0 by simp
  have b0': "\<not> game_over hm0"
    using b0 m0 by simp
  have "\<exists>gm g gm1 g1 gm3 g3 gm4 g4.
      reachable (gm, g) \<and> 0 \<le> lives gm \<and> \<not> game_over gm
      \<and> update no_input 11.25 gm g = Some (Inr (gm1, g1))
      \<and> wave gm \<le> wave gm1 \<and> score gm \<le> score gm1 \<and> lives gm1 \<le> lives gm
      \<and> reachable (gm3, g3) \<and> lives gm3 = 0 \<and> game_over gm3
      \<and> update (fst restart_frame) (snd restart_frame) gm3 g3 = Some (Inr (gm4, g4))
      \<and> wave gm4 = 1 \<and> score gm4 = 0 \<and> lives gm4 = 3"
    using ra a(2,4) a0 a0' a3 a3' by blast
  moreover have "\<exists>gm g gm1 g1 gm3 g3 gm4 g4.
      Reachable (gm, g) \<and> 0 \<le> lives gm \<and> \<not> game_over gm
      \<and> Update no_input 11.25 gm g = Some (gm1, g1)
      \<and> wave gm \<le> wave gm1 \<and> score gm \<le> score gm1 \<and> lives gm1 \<le> lives gm
      \<and> Reachable (gm3, g3) \<and> lives gm3 = 0 \<and> game_over gm3
      \<and> Update (fst restart_frame) (snd restart_frame) gm3 g3 = Some (gm4, g4)
      \<and> wave gm4 = 1 \<and> score gm4 = 0 \<and> lives gm4 = 3"
    using rb b(2,4) b0 b0' b3 b3' by blast
  ultimately show ?thesis
    by blast
qed


subsection \<open>The timer at game over\<close>

text \<open>
  The game-over flag is set by the player pass only, right after the player is reset,
  and no update runs while it is set: in every state a run reaches with the flag set, the
  invulnerability timer is 2.
\<close>

lemma player_vs_asteroids_timer:
  assumes "\<not> game_over gm"
  shows "game_over (player_vs_asteroids gm) \<longrightarrow> p_invuln (player (player_vs_asteroids gm)) = 2"
  using assms player_vs_asteroids_cases [of gm] by (auto simp add: Player_reset_def)

lemma update_timer:
  assumes "game_over gm \<longrightarrow> p_invuln (player gm) = 2" "update inp dt gm g = Some (Inr (gm1, g1))"
  shows "game_over gm1 \<longrightarrow> p_invuln (player gm1) = 2"
proof (cases "game_over gm")
  case True
  show ?thesis
  proof (cases "enter_pressed inp")
    case True
    let ?r = "gm\<lparr>score := 0, lives := LIVES_START, wave := 1, game_over := False,
                 player := Player_reset (player gm), bullets := []\<rparr>"
    have "spawn_wave 1 ?r g = Some (Inr (gm1, g1))"
      using assms(2) \<open>game_over gm\<close> True by (simp add: update_def reset_def Let_def)
    then obtain as where "gm1 = ?r\<lparr>asteroids := as\<rparr>"
      using spawn_wave_result by blast
    then show ?thesis
      by simp
  next
    case False
    then show ?thesis
      using assms \<open>game_over gm\<close> by (simp add: update_def)
  qed
next
  case False
  then obtain gm6 g6 where hc: "handle_collisions (update_entities inp dt gm) g = Inr (gm6, g6)"
    using assms(2) by (cases "handle_collisions (update_entities inp dt gm) g")
      (auto simp add: update_def)
  have rest: "spawn_wave (wave gm6 + 1)
        (gm6\<lparr>wave := wave gm6 + 1, player := (player gm6)\<lparr>p_invuln := 2\<rparr>\<rparr>) g6
      = Some (Inr (gm1, g1))" if "asteroids gm6 = []"
    using assms(2) False hc that by (simp add: update_def Let_def)
  have same: "gm1 = gm6" if "asteroids gm6 \<noteq> []"
    using assms(2) False hc that by (simp add: update_def Let_def)
  obtain bs sc as where
    "gm6 = player_vs_asteroids
       (update_entities inp dt gm\<lparr>score := sc, asteroids := as, bullets := bs\<rparr>)"
    using handle_collisions_player_pass [OF hc] by blast
  then have t6: "game_over gm6 \<longrightarrow> p_invuln (player gm6) = 2"
    using False
      player_vs_asteroids_timer
        [of "update_entities inp dt gm\<lparr>score := sc, asteroids := as, bullets := bs\<rparr>"]
    by (simp add: update_entities_keeps)
  show ?thesis
  proof (cases "asteroids gm6 = []")
    case True
    then obtain as1 where
      "gm1 = gm6\<lparr>wave := wave gm6 + 1, player := (player gm6)\<lparr>p_invuln := 2\<rparr>, asteroids := as1\<rparr>"
      using rest spawn_wave_result by blast
    then show ?thesis
      by simp
  next
    case nonempty: False
    then show ?thesis
      using same t6 by simp
  qed
qed

lemma Update_timer:
  assumes "game_over gm \<longrightarrow> p_invuln (player gm) = 2" "Update inp dt gm g = Some (gm1, g1)"
  shows "game_over gm1 \<longrightarrow> p_invuln (player gm1) = 2"
proof (cases "game_over gm")
  case True
  show ?thesis
  proof (cases "enter_pressed inp")
    case True
    let ?r = "gm\<lparr>score := 0, lives := LIVES_START, wave := 1, game_over := False,
                 player := Player_Reset (player gm), bullets := []\<rparr>"
    have "SpawnWave ?r g = Some (gm1, g1)"
      using assms(2) \<open>game_over gm\<close> True by (simp add: Update_def Reset_def)
    then obtain as where "gm1 = ?r\<lparr>asteroids := as\<rparr>"
      using SpawnWave_result by blast
    then show ?thesis
      by simp
  next
    case False
    then show ?thesis
      using assms \<open>game_over gm\<close> by (simp add: Update_def)
  qed
next
  case False
  obtain gm6 g6 where hc: "HandleCollisions (Update_entities inp dt gm) g = (gm6, g6)"
    by (cases "HandleCollisions (Update_entities inp dt gm) g")
  have rest: "SpawnWave
        (gm6\<lparr>wave := wave gm6 + 1, player := (player gm6)\<lparr>p_invuln := 2\<rparr>\<rparr>) g6
      = Some (gm1, g1)" if "asteroids gm6 = []"
    using assms(2) False hc that by (simp add: Update_def Let_def)
  have same: "gm1 = gm6" if "asteroids gm6 \<noteq> []"
    using assms(2) False hc that by (simp add: Update_def Let_def)
  obtain bs sc as where
    "gm6 = player_vs_asteroids
       (Update_entities inp dt gm\<lparr>bullets := bs, score := sc, asteroids := as\<rparr>)"
    using HandleCollisions_player_pass [OF hc] by blast
  then have t6: "game_over gm6 \<longrightarrow> p_invuln (player gm6) = 2"
    using False
      player_vs_asteroids_timer
        [of "Update_entities inp dt gm\<lparr>bullets := bs, score := sc, asteroids := as\<rparr>"]
    by (simp add: Update_entities_keeps)
  show ?thesis
  proof (cases "asteroids gm6 = []")
    case True
    then obtain as1 where
      "gm1 = gm6\<lparr>wave := wave gm6 + 1, player := (player gm6)\<lparr>p_invuln := 2\<rparr>, asteroids := as1\<rparr>"
      using rest SpawnWave_result by blast
    then show ?thesis
      by simp
  next
    case nonempty: False
    then show ?thesis
      using same t6 by simp
  qed
qed

lemma reachable_timer: "reachable s \<Longrightarrow> game_over (fst s) \<longrightarrow> p_invuln (player (fst s)) = 2"
proof (induction rule: reachable.induct)
  case (reachable_new g s)
  then have "spawn_wave 1
      \<lparr>player = Player_new, bullets = [], asteroids = [], score = 0,
        lives = LIVES_START, wave = 1, game_over = False\<rparr> g = Some (Inr (fst s, snd s))"
    by (simp add: Game_new_def)
  then obtain as where
    "fst s = \<lparr>player = Player_new, bullets = [], asteroids = [], score = 0,
              lives = LIVES_START, wave = 1, game_over = False\<rparr>\<lparr>asteroids := as\<rparr>"
    using spawn_wave_result by blast
  then show ?case
    by simp
next
  case (reachable_update gm g dt inp s)
  then show ?case
    using update_timer [of gm inp dt g "fst s" "snd s"] by simp
qed

lemma Reachable_timer: "Reachable s \<Longrightarrow> game_over (fst s) \<longrightarrow> p_invuln (player (fst s)) = 2"
proof (induction rule: Reachable.induct)
  case (Reachable_ctor g s)
  then have "SpawnWave
      \<lparr>player = Player_ctor, bullets = [], asteroids = [], score = 0,
        lives = LIVES_START, wave = 1, game_over = False\<rparr> g = Some (fst s, snd s)"
    by (simp add: Game_ctor_def)
  then obtain as where
    "fst s = \<lparr>player = Player_ctor, bullets = [], asteroids = [], score = 0,
              lives = LIVES_START, wave = 1, game_over = False\<rparr>\<lparr>asteroids := as\<rparr>"
    using SpawnWave_result by blast
  then show ?case
    by simp
next
  case (Reachable_Update gm g dt inp s)
  then show ?case
    using Update_timer [of gm inp dt g "fst s" "snd s"] by simp
qed

text \<open>So the frame of every state a run reaches has the player's triangle.\<close>

lemma reachable_player_drawn:
  "reachable (gm, g) \<Longrightarrow> player_drawn (draw M gm)"
  "Reachable (gm, g) \<Longrightarrow> player_drawn (Draw M gm)"
  using reachable_timer [of "(gm, g)"] Reachable_timer [of "(gm, g)"]
  by (auto simp add: player_drawn_iff)


end
